theory Spec2Isabelle
  imports Main "HOL-Library.Multiset"
begin

section \<open>The connection pool of lib/pool.js\<close>

text \<open>
  The pool keeps two JavaScript arrays, \<^verbatim>\<open>_pool\<close> (available) and \<^verbatim>\<open>_reserved\<close>.
  Their elements are the objects built by \<^verbatim>\<open>addConnection\<close> / \<^verbatim>\<open>addConnectionSync\<close>
  and, since \<^verbatim>\<open>release\<close> accepts any object, whatever object a caller hands in.
  Everything outside pool.js (the driver manager, the uuid generator, the clock,
  \<^verbatim>\<open>Math.random\<close>, the close of a connection) is an oracle of the environment; the
  number of requests made to each oracle so far is part of the world state.
\<close>

subsection \<open>Values\<close>

type_synonym handle = nat

datatype jserror =
    Error string    \<comment> \<open>\<^verbatim>\<open>new Error(msg)\<close> built by pool.js\<close>
  | TypeError       \<comment> \<open>property read on \<^verbatim>\<open>null\<close> or \<^verbatim>\<open>undefined\<close>\<close>
  | External nat    \<comment> \<open>an error value produced by a collaborator\<close>

record keepalive_cfg =
  interval :: int
  query :: string
  enabled :: bool

text \<open>The \<^verbatim>\<open>conn\<close> property of an array element, as pool.js inspects it.\<close>

datatype connprop = ConnUndefined | ConnNull | Connection handle

text \<open>The handle returned by \<^verbatim>\<open>setInterval(keepalive, ka.interval, conn, ka.query)\<close>.\<close>

datatype timer = Interval int handle string

text \<open>
  A (non-null) object, seen through the properties pool.js reads.
  \<^verbatim>\<open>None\<close> is \<^verbatim>\<open>undefined\<close>; \<^verbatim>\<open>keepalive = None\<close> is the value \<^verbatim>\<open>false\<close>.
\<close>

record connobj =
  uuid :: "string option"
  conn :: connprop
  keepalive :: "timer option"
  lastIdle :: "int option"

datatype jsval =
    JUndefined
  | JNull
  | JBoolean bool
  | JNumber int
  | JString string
  | JFunction
  | JObject connobj

fun typeof :: "jsval \<Rightarrow> string" where
  "typeof JUndefined = ''undefined''"
| "typeof JNull = ''object''"
| "typeof (JBoolean b) = ''boolean''"
| "typeof (JNumber n) = ''number''"
| "typeof (JString s) = ''string''"
| "typeof JFunction = ''function''"
| "typeof (JObject ob) = ''object''"

text \<open>Truthiness of a number-or-undefined/null value (\<^verbatim>\<open>0\<close> is falsy).\<close>

fun truthy :: "int option \<Rightarrow> bool" where
  "truthy None = False"
| "truthy (Some n) = (n \<noteq> 0)"

subsection \<open>Environment and world\<close>

record env =
  now :: "nat \<Rightarrow> int"                       \<comment> \<open>k-th reading of \<^verbatim>\<open>new Date().getTime()\<close>\<close>
  uuid_v4 :: "nat \<Rightarrow> string"                 \<comment> \<open>k-th result of \<^verbatim>\<open>uuid.v4()\<close>\<close>
  getConnection :: "nat \<Rightarrow> jserror + handle"  \<comment> \<open>k-th request to the driver manager\<close>
  random :: "nat \<Rightarrow> nat"                     \<comment> \<open>k-th draw of \<^verbatim>\<open>Math.random()\<close>, see \<open>shuffle\<close>\<close>
  closeResult :: "nat \<Rightarrow> jserror option"     \<comment> \<open>error of the k-th \<^verbatim>\<open>close\<close>, if any\<close>
  newInstance :: "string \<Rightarrow> jserror option"   \<comment> \<open>\<^verbatim>\<open>java.newInstance(drivername, ...)\<close>\<close>
  registerDriver :: "jserror option"          \<comment> \<open>\<^verbatim>\<open>dm.registerDriver(driver, ...)\<close>\<close>

record world =
  clock_reads :: nat
  uuids_made :: nat
  conns_asked :: nat
  draws :: nat
  closed :: "handle list"   \<comment> \<open>connections on which \<^verbatim>\<open>close\<close> was called, oldest first\<close>

definition world0 :: world where
  "world0 = \<lparr>clock_reads = 0, uuids_made = 0, conns_asked = 0, draws = 0, closed = []\<rparr>"

text \<open>
  How a call ends: an exception leaves the function, or the callback is invoked with an
  error, or the callback is invoked with \<^verbatim>\<open>null\<close> and a result.
\<close>

datatype 'a outcome = Throws jserror | CallbackErr jserror | CallbackOk 'a

subsection \<open>Pool construction\<close>

record config =
  cfg_drivername :: "string option"
  cfg_minpoolsize :: "int option"
  cfg_maxpoolsize :: "int option"
  cfg_keepalive :: "keepalive_cfg option"
  cfg_maxidle :: "int option"

record pool_state =
  drivername :: string
  minpoolsize :: int
  maxpoolsize :: int
  ka :: keepalive_cfg
  maxidle :: "int option"
  pool :: "connobj list"
  reserved :: "connobj list"

text \<open>
  \<^verbatim>\<open>function Pool(config)\<close>. The url, the property bag and the logging level are only
  handed on to collaborators and are left out.
\<close>

definition Pool :: "config \<Rightarrow> pool_state" where
  "Pool c =
    (let k = (case cfg_keepalive c of
                Some k \<Rightarrow> k
              | None \<Rightarrow> \<lparr>interval = 60000, query = ''select 1'', enabled = False\<rparr>)
     in \<lparr>drivername = (case cfg_drivername c of Some d \<Rightarrow> d | None \<Rightarrow> ''''),
         minpoolsize = (case cfg_minpoolsize c of
                          Some n \<Rightarrow> if n \<noteq> 0 then n else 1
                        | None \<Rightarrow> 1),
         maxpoolsize = (case cfg_maxpoolsize c of
                          Some n \<Rightarrow> if n \<noteq> 0 then n else 1
                        | None \<Rightarrow> 1),
         ka = k,
         maxidle = (if \<not> enabled k \<and> truthy (cfg_maxidle c) then cfg_maxidle c else None),
         pool = [],
         reserved = []\<rparr>)"

subsection \<open>Creating a connection\<close>

text \<open>
  \<^verbatim>\<open>addConnectionSync\<close>: ask the driver manager (which may throw), then build the
  object; \<^verbatim>\<open>lastIdle\<close> is written only when \<^verbatim>\<open>maxIdle\<close> is truthy.
\<close>

definition addConnectionSync ::
  "env \<Rightarrow> keepalive_cfg \<Rightarrow> int option \<Rightarrow> world \<Rightarrow> (jserror + connobj) \<times> world" where
  "addConnectionSync e k maxIdle w =
    (case getConnection e (conns_asked w) of
       Inl err \<Rightarrow> (Inl err, w\<lparr>conns_asked := Suc (conns_asked w)\<rparr>)
     | Inr h \<Rightarrow>
         let w1 = w\<lparr>conns_asked := Suc (conns_asked w), uuids_made := Suc (uuids_made w)\<rparr>;
             connobj = \<lparr>uuid = Some (uuid_v4 e (uuids_made w)),
                        conn = Connection h,
                        keepalive = (if enabled k then Some (Interval (interval k) h (query k))
                                     else None),
                        lastIdle = None\<rparr>
         in if truthy maxIdle
            then (Inr (connobj\<lparr>lastIdle := Some (now e (clock_reads w1))\<rparr>),
                  w1\<lparr>clock_reads := Suc (clock_reads w1)\<rparr>)
            else (Inr connobj, w1))"

text \<open>
  \<^verbatim>\<open>addConnection\<close>, the asynchronous twin used by \<^verbatim>\<open>initialize\<close>: the same object,
  delivered through a callback instead of a return value.
\<close>

definition addConnection ::
  "env \<Rightarrow> keepalive_cfg \<Rightarrow> int option \<Rightarrow> world \<Rightarrow> (jserror + connobj) \<times> world" where
  "addConnection e k maxIdle w =
    (case getConnection e (conns_asked w) of
       Inl err \<Rightarrow> (Inl err, w\<lparr>conns_asked := Suc (conns_asked w)\<rparr>)
     | Inr h \<Rightarrow>
         let w1 = w\<lparr>conns_asked := Suc (conns_asked w), uuids_made := Suc (uuids_made w)\<rparr>;
             connobj = \<lparr>uuid = Some (uuid_v4 e (uuids_made w)),
                        conn = Connection h,
                        keepalive = (if enabled k then Some (Interval (interval k) h (query k))
                                     else None),
                        lastIdle = None\<rparr>
         in if truthy maxIdle
            then (Inr (connobj\<lparr>lastIdle := Some (now e (clock_reads w1))\<rparr>),
                  w1\<lparr>clock_reads := Suc (clock_reads w1)\<rparr>)
            else (Inr connobj, w1))"

subsection \<open>initialize\<close>

text \<open>
  \<^verbatim>\<open>asyncjs.times(n, iteratee, callback)\<close> starts all \<open>n\<close> creations and hands the final
  callback either the first error or the results in index order. The requests are
  taken to reach the driver manager in index order.
\<close>

fun timesAddConnection ::
  "env \<Rightarrow> keepalive_cfg \<Rightarrow> int option \<Rightarrow> nat \<Rightarrow> world \<Rightarrow> (jserror + connobj) list \<times> world" where
  "timesAddConnection e k maxIdle 0 w = ([], w)"
| "timesAddConnection e k maxIdle (Suc n) w =
    (case addConnection e k maxIdle w of
       (r, w1) \<Rightarrow>
         (case timesAddConnection e k maxIdle n w1 of
            (rs, w2) \<Rightarrow> (r # rs, w2)))"

fun firstError :: "(jserror + 'a) list \<Rightarrow> jserror option" where
  "firstError [] = None"
| "firstError (Inl err # rs) = Some err"
| "firstError (Inr v # rs) = firstError rs"

fun results :: "(jserror + 'a) list \<Rightarrow> 'a list" where
  "results [] = []"
| "results (Inl err # rs) = results rs"
| "results (Inr v # rs) = v # results rs"

definition addConnectionsOnInitialize ::
  "env \<Rightarrow> world \<Rightarrow> pool_state \<Rightarrow> unit outcome \<times> world \<times> pool_state" where
  "addConnectionsOnInitialize e w s =
    (case timesAddConnection e (ka s) (maxidle s) (nat (minpoolsize s)) w of
       (rs, w1) \<Rightarrow>
         (case firstError rs of
            Some err \<Rightarrow> (CallbackErr err, w1, s)
          | None \<Rightarrow> (CallbackOk (), w1, s\<lparr>pool := pool s @ results rs\<rparr>)))"

definition initialize ::
  "env \<Rightarrow> world \<Rightarrow> pool_state \<Rightarrow> unit outcome \<times> world \<times> pool_state" where
  "initialize e w s =
    (if drivername s \<noteq> [] then
       (case newInstance e (drivername s) of
          Some err \<Rightarrow> (CallbackErr err, w, s)
        | None \<Rightarrow>
            (case registerDriver e of
               Some err \<Rightarrow> (CallbackErr err, w, s)
             | None \<Rightarrow> addConnectionsOnInitialize e w s))
     else addConnectionsOnInitialize e w s)"

subsection \<open>Idle eviction\<close>

text \<open>
  Modelled from the spec: \<^verbatim>\<open>Connection.prototype.close\<close> of lib/connection.js, which is
  not among the sources. Section 6 gives \<^verbatim>\<open>Connection.close() -> void | CloseError\<close>, and
  sections 4.2 and 7 say that idle eviction re-throws a close failure to its caller: the
  callback handed to \<^verbatim>\<open>close\<close> runs, with the error if there is one, before \<^verbatim>\<open>close\<close>
  returns. The call is logged in the world; whether it fails is the environment's choice.
\<close>

definition close :: "env \<Rightarrow> handle \<Rightarrow> world \<Rightarrow> jserror option \<times> world" where
  "close e h w = (closeResult e (length (closed w)), w\<lparr>closed := closed w @ [h]\<rparr>)"

text \<open>\<^verbatim>\<open>conn.lastIdle < maxLastIdle\<close>; comparing \<^verbatim>\<open>undefined\<close> is false.\<close>

fun lastIdle_lt :: "int option \<Rightarrow> int \<Rightarrow> bool" where
  "lastIdle_lt None m = False"
| "lastIdle_lt (Some t) m = (t < m)"

text \<open>\<^verbatim>\<open>array.splice(i, 1)\<close>\<close>

definition splice1 :: "'a list \<Rightarrow> nat \<Rightarrow> 'a list" where
  "splice1 xs i = take i xs @ drop (Suc i) xs"

text \<open>
  The loop of \<^verbatim>\<open>closeIdleConnectionsInArray\<close>; the first argument \<open>Suc i\<close> stands for
  the loop variable \<open>i\<close>, and \<open>0\<close> for the loop's end. Every element of the arrays is an
  object, so \<^verbatim>\<open>typeof conn === 'object'\<close> holds for an index in range; an index out
  of range reads \<^verbatim>\<open>undefined\<close> and is skipped. Reading \<^verbatim>\<open>close\<close> of an undefined
  \<^verbatim>\<open>conn.conn\<close> throws.
\<close>

fun closeIdleLoop ::
  "env \<Rightarrow> int \<Rightarrow> nat \<Rightarrow> world \<Rightarrow> connobj list \<Rightarrow> jserror option \<times> world \<times> connobj list" where
  "closeIdleLoop e maxLastIdle 0 w array = (None, w, array)"
| "closeIdleLoop e maxLastIdle (Suc i) w array =
    (if i < length array \<and> conn (array ! i) \<noteq> ConnNull then
       (if lastIdle_lt (lastIdle (array ! i)) maxLastIdle then
          (case conn (array ! i) of
             Connection h \<Rightarrow>
               (case close e h w of
                  (Some err, w1) \<Rightarrow> (Some err, w1, array)
                | (None, w1) \<Rightarrow> closeIdleLoop e maxLastIdle i w1 (splice1 array i))
           | _ \<Rightarrow> (Some TypeError, w, array))
        else closeIdleLoop e maxLastIdle i w array)
     else closeIdleLoop e maxLastIdle i w array)"

definition closeIdleConnectionsInArray ::
  "env \<Rightarrow> world \<Rightarrow> connobj list \<Rightarrow> int \<Rightarrow> jserror option \<times> world \<times> connobj list" where
  "closeIdleConnectionsInArray e w array maxIdle =
    (let time = now e (clock_reads w);
         maxLastIdle = time - maxIdle
     in closeIdleLoop e maxLastIdle (length array) (w\<lparr>clock_reads := Suc (clock_reads w)\<rparr>) array)"

text \<open>\<^verbatim>\<open>Pool.prototype._closeIdleConnections\<close>: only \<^verbatim>\<open>_pool\<close> is scanned.\<close>

definition closeIdleConnections ::
  "env \<Rightarrow> world \<Rightarrow> pool_state \<Rightarrow> jserror option \<times> world \<times> pool_state" where
  "closeIdleConnections e w s =
    (if \<not> truthy (maxidle s) then (None, w, s)
     else (case maxidle s of
             Some m \<Rightarrow>
               (case closeIdleConnectionsInArray e w (pool s) m of
                  (r, w1, array) \<Rightarrow> (r, w1, s\<lparr>pool := array\<rparr>))
           | None \<Rightarrow> (None, w, s)))"

subsection \<open>shuffle\<close>

text \<open>
  \<^verbatim>\<open>Math.random()\<close> lies in \<open>[0, 1)\<close>, so \<^verbatim>\<open>Math.floor(Math.random() * (index + 1))\<close>
  is some position in \<open>0..index\<close>, and every such position can occur. The position is
  taken from the environment's draw, reduced modulo \<open>index + 1\<close>.
  The first argument of the loop is the loop variable \<open>index\<close>.
\<close>

fun shuffleLoop :: "env \<Rightarrow> nat \<Rightarrow> world \<Rightarrow> 'a list \<Rightarrow> world \<times> 'a list" where
  "shuffleLoop e 0 w array = (w, array)"
| "shuffleLoop e (Suc i) w array =
    (let index = Suc i;
         randomPosition = random e (draws w) mod (index + 1);
         temporary = array ! index;
         array1 = array[index := array ! randomPosition];
         array2 = array1[randomPosition := temporary]
     in shuffleLoop e i (w\<lparr>draws := Suc (draws w)\<rparr>) array2)"

definition shuffle :: "env \<Rightarrow> world \<Rightarrow> 'a list \<Rightarrow> world \<times> 'a list" where
  "shuffle e w array = shuffleLoop e (length array - 1) w array"

subsection \<open>reserve\<close>

text \<open>
  The top-up loop of \<^verbatim>\<open>reserve\<close> (lines 186 to 188): it is outside any \<^verbatim>\<open>try\<close>, so an
  exception of \<^verbatim>\<open>addConnectionSync\<close> leaves \<^verbatim>\<open>reserve\<close>.
\<close>

fun topUp :: "env \<Rightarrow> nat \<Rightarrow> world \<Rightarrow> pool_state \<Rightarrow> jserror option \<times> world \<times> pool_state" where
  "topUp e 0 w s = (None, w, s)"
| "topUp e (Suc n) w s =
    (case addConnectionSync e (ka s) (maxidle s) w of
       (Inl err, w1) \<Rightarrow> (Some err, w1, s)
     | (Inr c, w1) \<Rightarrow> topUp e n w1 (s\<lparr>pool := c # pool s\<rparr>))"

text \<open>The part of \<^verbatim>\<open>reserve\<close> after the top-up (lines 193 to 220).\<close>

definition handOut :: "env \<Rightarrow> world \<Rightarrow> pool_state \<Rightarrow> connobj outcome \<times> world \<times> pool_state" where
  "handOut e w s =
    (case pool s of
       c # rest \<Rightarrow> (CallbackOk c, w, s\<lparr>pool := rest, reserved := c # reserved s\<rparr>)
     | [] \<Rightarrow>
         if int (length (reserved s)) < maxpoolsize s then
           (case addConnectionSync e (ka s) (maxidle s) w of
              (Inl err, w1) \<Rightarrow> (CallbackErr err, w1, s)
            | (Inr c, w1) \<Rightarrow> (CallbackOk c, w1, s\<lparr>reserved := c # reserved s\<rparr>))
         else (CallbackErr (Error ''No more pool connections available''), w, s))"

definition reserve :: "env \<Rightarrow> world \<Rightarrow> pool_state \<Rightarrow> connobj outcome \<times> world \<times> pool_state" where
  "reserve e w s =
    (case closeIdleConnections e w s of
       (Some err, w1, s1) \<Rightarrow> (Throws err, w1, s1)
     | (None, w1, s1) \<Rightarrow>
         (case shuffle e w1 (pool s1) of
            (w2, array) \<Rightarrow>
              let s2 = s1\<lparr>pool := array\<rparr>;
                  conns = pool s2 @ reserved s2;
                  times = minpoolsize s2 - int (length conns)
              in (case (if times > 0 then topUp e (nat times) w2 s2 else (None, w2, s2)) of
                    (Some err, w3, s3) \<Rightarrow> (Throws err, w3, s3)
                  | (None, w3, s3) \<Rightarrow> handOut e w3 s3)))"

text \<open>
  \<^verbatim>\<open>reserve\<close> without its first statement: lines 181 to 220, what \<^verbatim>\<open>reserve\<close> does once
  \<^verbatim>\<open>_closeIdleConnections\<close> has returned.
\<close>

definition reserveAfterEviction ::
  "env \<Rightarrow> world \<Rightarrow> pool_state \<Rightarrow> connobj outcome \<times> world \<times> pool_state" where
  "reserveAfterEviction e w1 s1 =
    (case shuffle e w1 (pool s1) of
       (w2, array) \<Rightarrow>
         let s2 = s1\<lparr>pool := array\<rparr>;
             conns = pool s2 @ reserved s2;
             times = minpoolsize s2 - int (length conns)
         in (case (if times > 0 then topUp e (nat times) w2 s2 else (None, w2, s2)) of
               (Some err, w3, s3) \<Rightarrow> (Throws err, w3, s3)
             | (None, w3, s3) \<Rightarrow> handOut e w3 s3))"

subsection \<open>release\<close>

text \<open>
  \<^verbatim>\<open>Pool.prototype.release\<close>. \<^verbatim>\<open>typeof null\<close> is \<^verbatim>\<open>'object'\<close>, and reading
  \<^verbatim>\<open>conn.uuid\<close> of \<^verbatim>\<open>null\<close> throws before anything is changed.
  \<^verbatim>\<open>_.reject\<close> keeps the elements for which the predicate is false.
\<close>

definition release :: "jsval \<Rightarrow> pool_state \<Rightarrow> unit outcome \<times> pool_state" where
  "release c s =
    (if typeof c = ''object'' then
       (case c of
          JObject ob \<Rightarrow>
            (CallbackOk (),
             s\<lparr>reserved := filter (\<lambda>r. \<not> (uuid r = uuid ob)) (reserved s),
               pool := ob # pool s\<rparr>)
        | _ \<Rightarrow> (Throws TypeError, s))
     else (CallbackErr (Error ''INVALID CONNECTION''), s))"

subsection \<open>purge\<close>

text \<open>
  \<^verbatim>\<open>asyncjs.each(conns, iteratee, callback)\<close> calls the iteratee on every element in
  order and the final callback once each has called \<^verbatim>\<open>done\<close>. The iteratee of
  \<^verbatim>\<open>purge\<close> calls \<^verbatim>\<open>done()\<close> without the error of \<^verbatim>\<open>close\<close>. An exception thrown by
  the iteratee itself (reading \<^verbatim>\<open>close\<close> of an undefined \<^verbatim>\<open>conn.conn\<close>) leaves
  \<^verbatim>\<open>asyncjs.each\<close>, and the final callback is not reached.
\<close>

fun purgeEach :: "env \<Rightarrow> connobj list \<Rightarrow> world \<Rightarrow> jserror option \<times> world" where
  "purgeEach e [] w = (None, w)"
| "purgeEach e (c # conns) w =
    (case conn c of
       ConnNull \<Rightarrow> purgeEach e conns w
     | Connection h \<Rightarrow> (case close e h w of (err, w1) \<Rightarrow> purgeEach e conns w1)
     | ConnUndefined \<Rightarrow> (Some TypeError, w))"

definition purge :: "env \<Rightarrow> world \<Rightarrow> pool_state \<Rightarrow> unit outcome \<times> world \<times> pool_state" where
  "purge e w s =
    (let conns = pool s @ reserved s
     in (case purgeEach e conns w of
           (Some err, w1) \<Rightarrow> (Throws err, w1, s)
         | (None, w1) \<Rightarrow> (CallbackOk (), w1, s\<lparr>pool := [], reserved := []\<rparr>)))"

subsection \<open>Sequences of calls\<close>

text \<open>
  A client's calls, run one after the other on the world and the pool state; the state
  a call leaves is kept whatever its outcome. \<open>releases_reserved\<close> holds of a sequence
  in which every \<open>release\<close> is given a record that is in the reserved array at that
  moment.
\<close>

datatype call = Reserve | Release jsval

fun step :: "env \<Rightarrow> call \<Rightarrow> world \<times> pool_state \<Rightarrow> world \<times> pool_state" where
  "step e Reserve (w, s) = snd (reserve e w s)"
| "step e (Release x) (w, s) = (w, snd (release x s))"

fun run :: "env \<Rightarrow> call list \<Rightarrow> world \<times> pool_state \<Rightarrow> world \<times> pool_state" where
  "run e [] st = st"
| "run e (c # cs) st = run e cs (step e c st)"

fun releases_reserved :: "env \<Rightarrow> call list \<Rightarrow> world \<times> pool_state \<Rightarrow> bool" where
  "releases_reserved e [] st = True"
| "releases_reserved e (Reserve # cs) st = releases_reserved e cs (step e Reserve st)"
| "releases_reserved e (Release x # cs) st =
     ((case x of JObject ob \<Rightarrow> ob \<in> set (reserved (snd st)) | _ \<Rightarrow> False)
      \<and> releases_reserved e cs (step e (Release x) st))"

text \<open>
  The identities of the records \<open>xs\<close> are pairwise different and among the first \<open>n\<close>
  results of \<^verbatim>\<open>uuid.v4()\<close>.
\<close>

definition ids_issued :: "env \<Rightarrow> nat \<Rightarrow> connobj list \<Rightarrow> bool" where
  "ids_issued e n xs =
     (distinct (map uuid xs) \<and> (\<forall>c \<in> set xs. \<exists>k<n. uuid c = Some (uuid_v4 e k)))"

definition pool_inv :: "env \<Rightarrow> world \<times> pool_state \<Rightarrow> bool" where
  "pool_inv e st = ids_issued e (uuids_made (fst st)) (pool (snd st) @ reserved (snd st))"

subsection \<open>Vocabulary of the properties\<close>

text \<open>The connections behind the records of an array, in array order.\<close>

fun handles :: "connobj list \<Rightarrow> handle list" where
  "handles [] = []"
| "handles (c # cs) = (case conn c of Connection h \<Rightarrow> h # handles cs | _ \<Rightarrow> handles cs)"

subsection \<open>Concrete environments, configurations and records\<close>

text \<open>
  An environment in which every collaborator succeeds: the clock advances by 500 ms with
  every reading, the k-th uuid is a string of \<open>k + 1\<close> letters, the k-th connection
  request yields connection \<open>k\<close>.
\<close>

definition steady_env :: env where
  "steady_env =
     \<lparr>now = (\<lambda>k. 1000 + 500 * int k),
      uuid_v4 = (\<lambda>k. replicate (Suc k) CHR ''u''),
      getConnection = (\<lambda>k. Inr k),
      random = (\<lambda>k. k),
      closeResult = (\<lambda>k. None),
      newInstance = (\<lambda>d. None),
      registerDriver = None\<rparr>"

definition failing_close_env :: env where
  "failing_close_env = steady_env\<lparr>closeResult := (\<lambda>k. Some (External k))\<rparr>"

definition cfg23 :: config where
  "cfg23 = \<lparr>cfg_drivername = None, cfg_minpoolsize = Some 2, cfg_maxpoolsize = Some 3,
            cfg_keepalive = None, cfg_maxidle = None\<rparr>"

text \<open>The object \<^verbatim>\<open>{}\<close>.\<close>

definition bare_object :: connobj where
  "bare_object = \<lparr>uuid = None, conn = ConnUndefined, keepalive = None, lastIdle = None\<rparr>"

text \<open>A record as \<^verbatim>\<open>addConnectionSync\<close> builds it around connection \<open>h\<close>.\<close>

definition record_of :: "nat \<Rightarrow> int option \<Rightarrow> connobj" where
  "record_of h t =
     \<lparr>uuid = Some (replicate (Suc h) CHR ''u''), conn = Connection h, keepalive = None,
      lastIdle = t\<rparr>"

text \<open>As \<open>steady_env\<close>, but the driver manager fails from its n-th request on.\<close>

definition factory_fails_from :: "nat \<Rightarrow> env" where
  "factory_fails_from n =
     steady_env\<lparr>getConnection := (\<lambda>k. if k < n then Inr k else Inl (External k))\<rparr>"

text \<open>A pool of \<open>cfg23\<close> with two connections handed out and none available.\<close>

definition two_reserved :: pool_state where
  "two_reserved = (Pool cfg23)\<lparr>reserved := [record_of 1 None, record_of 0 None]\<rparr>"

definition world_after :: "nat \<Rightarrow> world" where
  "world_after n = world0\<lparr>uuids_made := n, conns_asked := n\<rparr>"

text \<open>Idle eviction after one second; a pool whose records were idle for 1500, 500 and 1000 ms
  at clock reading 20 (11000 ms).\<close>

definition cfg_idle :: config where
  "cfg_idle = cfg23\<lparr>cfg_maxidle := Some 1000\<rparr>"

definition idle_pool :: pool_state where
  "idle_pool =
     (Pool cfg_idle)\<lparr>pool := [record_of 0 (Some 9500), record_of 1 (Some 10500),
                               record_of 2 (Some 10000)],
                      reserved := [record_of 3 (Some 1000)]\<rparr>"

definition world_at_11000 :: world where
  "world_at_11000 = world0\<lparr>clock_reads := 20, uuids_made := 4, conns_asked := 4\<rparr>"

text \<open>
  A pool of \<open>cfg_idle\<close> at its minimum of two reserved connections, whose only available
  record has been idle for 1500 ms at clock reading 20.
\<close>

definition evicting_pool :: pool_state where
  "evicting_pool =
     (Pool cfg_idle)\<lparr>pool := [record_of 0 (Some 9500)],
                      reserved := [record_of 3 (Some 1000), record_of 2 (Some 1000)]\<rparr>"

text \<open>One connection, created at 1000 ms, reserved and released again.\<close>

definition cfg_cycle :: config where
  "cfg_cycle = \<lparr>cfg_drivername = None, cfg_minpoolsize = Some 1, cfg_maxpoolsize = Some 1,
                cfg_keepalive = None, cfg_maxidle = Some 100000\<rparr>"

definition cycle_init :: "unit outcome \<times> world \<times> pool_state" where
  "cycle_init = initialize steady_env world0 (Pool cfg_cycle)"

definition cycle_reserved :: "connobj outcome \<times> world \<times> pool_state" where
  "cycle_reserved = reserve steady_env (fst (snd cycle_init)) (snd (snd cycle_init))"

definition cycle_released :: "unit outcome \<times> pool_state" where
  "cycle_released = release (JObject (record_of 0 (Some 1000))) (snd (snd cycle_reserved))"

text \<open>The pool of \<open>cfg23\<close> after \<open>initialize\<close>, and two sequences of calls on it.\<close>

definition initialized23 :: "world \<times> pool_state" where
  "initialized23 = snd (initialize steady_env world0 (Pool cfg23))"

definition double_release :: "call list" where
  "double_release =
     [Reserve, Release (JObject (record_of 1 None)), Release (JObject (record_of 1 None))]"

definition orderly_calls :: "call list" where
  "orderly_calls =
     [Reserve, Release (JObject (record_of 1 None)), Reserve, Reserve, Reserve,
      Release (JObject (record_of 2 None))]"

section \<open>Properties\<close>

lemmas scenario_defs =
  steady_env_def factory_fails_from_def failing_close_env_def cfg23_def Pool_def record_of_def
  two_reserved_def world_after_def world0_def cfg_idle_def idle_pool_def world_at_11000_def
  cfg_cycle_def evicting_pool_def


subsection \<open>release\<close>

text \<open>
  C7, as the code has it: an argument whose \<^verbatim>\<open>typeof\<close> is not \<^verbatim>\<open>'object'\<close> (undefined, a
  boolean, a number, a string, a function) makes \<open>release\<close> call back with the error
  \<^verbatim>\<open>INVALID CONNECTION\<close>, and the pool state, hence both arrays, stays as it was.
\<close>

theorem release_non_object_rejected:
  "typeof c \<noteq> ''object'' \<Longrightarrow> release c s = (CallbackErr (Error ''INVALID CONNECTION''), s)"
  by (simp add: release_def)

theorem release_non_object_rejected_witness:
  "typeof (JString ''abc'') \<noteq> ''object'' \<and>
   release (JString ''abc'') (Pool cfg23) =
     (CallbackErr (Error ''INVALID CONNECTION''), Pool cfg23)"
  using release_non_object_rejected [of "JString ''abc''" "Pool cfg23"] by simp

text \<open>
  C7 as stated fails: the object \<^verbatim>\<open>{}\<close> has no identity, yet releasing it succeeds and
  puts it into the available array.
\<close>

theorem release_object_without_identity_counterexample:
  "uuid bare_object = None \<and>
   release (JObject bare_object) (Pool cfg23) =
     (CallbackOk (), (Pool cfg23)\<lparr>pool := [bare_object]\<rparr>) \<and>
   fst (release (JObject bare_object) (Pool cfg23)) \<noteq> CallbackErr (Error ''INVALID CONNECTION'') \<and>
   pool (snd (release (JObject bare_object) (Pool cfg23))) \<noteq> pool (Pool cfg23)"
  by (simp add: release_def bare_object_def Pool_def cfg23_def)

text \<open>
  C9: for every object, \<open>release\<close> succeeds and puts the object at the front of the
  available array, whatever the reserved array holds; the reserved array loses the
  records of that identity. Releasing the same object twice leaves two copies at the
  front, and every release adds one more occurrence of the object to the available array.
\<close>

theorem release_unshifts_any_object:
  "release (JObject ob) s =
     (CallbackOk (),
      s\<lparr>reserved := filter (\<lambda>r. uuid r \<noteq> uuid ob) (reserved s), pool := ob # pool s\<rparr>)
   \<and> pool (snd (release (JObject ob) (snd (release (JObject ob) s)))) = ob # ob # pool s
   \<and> count_list (pool (snd (release (JObject ob) s))) ob = Suc (count_list (pool s) ob)"
  by (simp add: release_def)

subsection \<open>purge\<close>

lemma purgeEach_all:
  "\<forall>c \<in> set cs. conn c \<noteq> ConnUndefined \<Longrightarrow>
   purgeEach e cs w = (None, w\<lparr>closed := closed w @ handles cs\<rparr>)"
proof (induction cs arbitrary: w)
  case Nil
  then show ?case by simp
next
  case (Cons c cs)
  then show ?case by (cases "conn c") (simp_all add: close_def)
qed

text \<open>
  C3: on a pool whose records carry a connection (or \<^verbatim>\<open>null\<close>) in \<^verbatim>\<open>conn\<close>, \<open>purge\<close>
  calls \<open>close\<close> on the connection of every record of the available array and then of the
  reserved array, in order, whatever the environment answers to each close, and ends
  through its callback with both arrays empty.
\<close>

theorem purge_closes_all_and_empties:
  assumes "\<forall>c \<in> set (pool s @ reserved s). conn c \<noteq> ConnUndefined"
  shows "purge e w s =
           (CallbackOk (), w\<lparr>closed := closed w @ handles (pool s @ reserved s)\<rparr>,
            s\<lparr>pool := [], reserved := []\<rparr>)"
  using purgeEach_all [OF assms, of e w] by (simp add: purge_def)

theorem purge_closes_all_and_empties_witness:
  "conn (record_of 4 None) \<noteq> ConnUndefined \<and> conn (record_of 7 None) \<noteq> ConnUndefined
   \<and> closeResult failing_close_env 0 = Some (External 0)
   \<and> closeResult failing_close_env 1 = Some (External 1)
   \<and> purge failing_close_env world0
        ((Pool cfg23)\<lparr>pool := [record_of 4 None], reserved := [record_of 7 None]\<rparr>) =
      (CallbackOk (), world0\<lparr>closed := [4, 7]\<rparr>, Pool cfg23)"
  using purge_closes_all_and_empties
    [of "(Pool cfg23)\<lparr>pool := [record_of 4 None], reserved := [record_of 7 None]\<rparr>"
        failing_close_env world0]
  by (simp add: scenario_defs)

subsection \<open>Building blocks of reserve\<close>

lemma addConnectionSync_ok:
  assumes "getConnection e (conns_asked w) = Inr h"
  shows "\<exists>c w1. addConnectionSync e k mi w = (Inr c, w1) \<and> conn c = Connection h
           \<and> uuid c = Some (uuid_v4 e (uuids_made w))
           \<and> lastIdle c = (if truthy mi then Some (now e (clock_reads w)) else None)
           \<and> conns_asked w1 = Suc (conns_asked w) \<and> uuids_made w1 = Suc (uuids_made w)
           \<and> closed w1 = closed w \<and> draws w1 = draws w"
  using assms by (simp add: addConnectionSync_def Let_def)

lemma addConnectionSync_fail:
  assumes "getConnection e (conns_asked w) = Inl err"
  shows "addConnectionSync e k mi w = (Inl err, w\<lparr>conns_asked := Suc (conns_asked w)\<rparr>)"
  using assms by (simp add: addConnectionSync_def)

lemma shuffleLoop_length: "length (snd (shuffleLoop e i w xs)) = length xs"
  by (induction i arbitrary: w xs) (simp_all add: Let_def)

lemma shuffleLoop_mset: "i < length xs \<Longrightarrow> mset (snd (shuffleLoop e i w xs)) = mset xs"
proof (induction i arbitrary: w xs)
  case 0
  then show ?case by simp
next
  case (Suc i)
  let ?p = "random e (draws w) mod (Suc i + 1)"
  have p: "?p < length xs" using Suc.prems
  proof -
    have "?p < Suc (Suc i)" by simp
    also have "Suc (Suc i) \<le> length xs" using Suc.prems by simp
    finally show ?thesis .
  qed
  have "mset (xs[Suc i := xs ! ?p, ?p := xs ! Suc i]) = mset xs"
    using mset_swap [of ?p xs "Suc i"] p Suc.prems by simp
  moreover have "i < length (xs[Suc i := xs ! ?p, ?p := xs ! Suc i])"
    using Suc.prems by simp
  ultimately show ?case using Suc.IH [of "xs[Suc i := xs ! ?p, ?p := xs ! Suc i]"]
    by (simp add: Let_def)
qed

lemma shuffle_mset: "mset (snd (shuffle e w xs)) = mset xs"
proof (cases xs)
  case Nil
  then show ?thesis by (simp add: shuffle_def)
next
  case (Cons x ys)
  then show ?thesis by (simp add: shuffle_def shuffleLoop_mset)
qed

lemma shuffle_length: "length (snd (shuffle e w xs)) = length xs"
  by (simp add: shuffle_def shuffleLoop_length)

lemma shuffle_Nil: "shuffle e w [] = (w, [])"
  by (simp add: shuffle_def)

lemma shuffleLoop_world:
  "fst (shuffleLoop e i w xs) = w\<lparr>draws := draws w + i\<rparr>"
  by (induction i arbitrary: w xs) (simp_all add: Let_def)

lemma closeIdleConnections_frame:
  "\<exists>a. snd (snd (closeIdleConnections e w s)) = s\<lparr>pool := a\<rparr>"
proof (cases "truthy (maxidle s)")
  case False
  have "s = s\<lparr>pool := pool s\<rparr>" by simp
  then have "\<exists>a. s = s\<lparr>pool := a\<rparr>" by (rule exI)
  with False show ?thesis by (simp add: closeIdleConnections_def)
next
  case True
  then show ?thesis
    by (auto simp: closeIdleConnections_def split: option.splits prod.splits)
qed

lemma closeIdleLoop_Nil: "closeIdleLoop e m i w [] = (None, w, [])"
  by (induction i) simp_all

lemma closeIdleConnections_empty:
  "pool s = [] \<Longrightarrow> snd (snd (closeIdleConnections e w s)) = s \<and> fst (closeIdleConnections e w s) = None"
proof -
  assume a: "pool s = []"
  then have "s\<lparr>pool := []\<rparr> = s" by (metis pool_state.surjective pool_state.update_convs(6))
  with a show ?thesis
    by (auto simp: closeIdleConnections_def closeIdleConnectionsInArray_def split: option.splits)
qed

lemma upt_Suc_shift: "map f [0..<Suc n] = f 0 # map (\<lambda>i. f (Suc i)) [0..<n]"
  by (simp only: upt_conv_Cons [of 0 "Suc n"] map_Suc_upt [symmetric]) (simp add: comp_def)

lemma topUp_ok:
  "\<forall>i<n. \<exists>h. getConnection e (conns_asked w + i) = Inr h \<Longrightarrow>
   \<exists>w' new. topUp e n w s = (None, w', s\<lparr>pool := new @ pool s\<rparr>)
     \<and> conns_asked w' = conns_asked w + n
     \<and> map conn (rev new) =
         map (\<lambda>i. Connection (projr (getConnection e (conns_asked w + i)))) [0..<n]"
proof (induction n arbitrary: w s)
  case 0
  have "s = s\<lparr>pool := [] @ pool s\<rparr>" by simp
  then show ?case by (intro exI [of _ w] exI [of _ "[]"]) simp
next
  case (Suc n)
  from Suc.prems obtain h where h: "getConnection e (conns_asked w) = Inr h" by force
  from addConnectionSync_ok [OF h, of "ka s" "maxidle s"] obtain c w1 where
    c: "addConnectionSync e (ka s) (maxidle s) w = (Inr c, w1)" "conn c = Connection h"
       "conns_asked w1 = Suc (conns_asked w)" by blast
  have "\<forall>i<n. \<exists>h. getConnection e (conns_asked w1 + i) = Inr h"
    using Suc.prems c(3) by (metis Suc_less_eq add_Suc_shift)
  from Suc.IH [OF this, of "s\<lparr>pool := c # pool s\<rparr>"] obtain w' new where
    r: "topUp e n w1 (s\<lparr>pool := c # pool s\<rparr>) = (None, w', s\<lparr>pool := new @ c # pool s\<rparr>)"
       "conns_asked w' = conns_asked w1 + n"
       "map conn (rev new) =
          map (\<lambda>i. Connection (projr (getConnection e (conns_asked w1 + i)))) [0..<n]"
    by auto
  have "topUp e (Suc n) w s = (None, w', s\<lparr>pool := (new @ [c]) @ pool s\<rparr>)"
    using c(1) r(1) by simp
  moreover have "conns_asked w' = conns_asked w + Suc n" using r(2) c(3) by simp
  moreover have "map conn (rev (new @ [c])) =
      map (\<lambda>i. Connection (projr (getConnection e (conns_asked w + i)))) [0..<Suc n]"
    using r(3) c(2,3) h by (simp add: upt_Suc_shift del: upt_Suc)
  ultimately show ?case by blast
qed

lemma topUp_fail:
  "j < n \<Longrightarrow> \<forall>i<j. \<exists>h. getConnection e (conns_asked w + i) = Inr h \<Longrightarrow>
   getConnection e (conns_asked w + j) = Inl err \<Longrightarrow>
   \<exists>w' new. topUp e n w s = (Some err, w', s\<lparr>pool := new @ pool s\<rparr>)
     \<and> map conn (rev new) =
         map (\<lambda>i. Connection (projr (getConnection e (conns_asked w + i)))) [0..<j]"
proof (induction n arbitrary: w s j)
  case 0
  then show ?case by simp
next
  case (Suc n)
  show ?case
  proof (cases j)
    case 0
    have "s = s\<lparr>pool := [] @ pool s\<rparr>" by simp
    moreover have "topUp e (Suc n) w s = (Some err, w\<lparr>conns_asked := Suc (conns_asked w)\<rparr>, s)"
      using Suc.prems(3) 0 by (simp add: addConnectionSync_fail)
    ultimately show ?thesis using 0
      by (intro exI [of _ "w\<lparr>conns_asked := Suc (conns_asked w)\<rparr>"] exI [of _ "[]"]) simp
  next
    case (Suc j')
    from Suc.prems(2) Suc obtain h where h: "getConnection e (conns_asked w) = Inr h" by force
    from addConnectionSync_ok [OF h, of "ka s" "maxidle s"] obtain c w1 where
      c: "addConnectionSync e (ka s) (maxidle s) w = (Inr c, w1)" "conn c = Connection h"
         "conns_asked w1 = Suc (conns_asked w)" by blast
    have a: "j' < n" using Suc.prems(1) Suc by simp
    have b: "\<forall>i<j'. \<exists>h. getConnection e (conns_asked w1 + i) = Inr h"
      using Suc.prems(2) c(3) Suc by (metis Suc_less_eq add_Suc_shift)
    have d: "getConnection e (conns_asked w1 + j') = Inl err"
      using Suc.prems(3) c(3) Suc by simp
    from Suc.IH [OF a b d, of "s\<lparr>pool := c # pool s\<rparr>"] obtain w' new where
      r: "topUp e n w1 (s\<lparr>pool := c # pool s\<rparr>) = (Some err, w', s\<lparr>pool := new @ c # pool s\<rparr>)"
         "map conn (rev new) =
            map (\<lambda>i. Connection (projr (getConnection e (conns_asked w1 + i)))) [0..<j']"
      by auto
    have "topUp e (Suc n) w s = (Some err, w', s\<lparr>pool := (new @ [c]) @ pool s\<rparr>)"
      using c(1) r(1) by simp
    moreover have "map conn (rev (new @ [c])) =
        map (\<lambda>i. Connection (projr (getConnection e (conns_asked w + i)))) [0..<j]"
      using r(2) c(2,3) h Suc by (simp add: upt_Suc_shift del: upt_Suc)
    ultimately show ?thesis by blast
  qed
qed

subsection \<open>reserve: growth on demand\<close>

text \<open>
  C5, as the code has it: when \<open>reserve\<close>, after its idle-eviction step, has an empty
  available array, a reserved array of at least \<open>minpoolsize\<close> (so nothing is topped up) and
  fewer than \<open>maxpoolsize\<close> records, and the driver manager fails, then \<open>reserve\<close> hands that
  error to its callback and the pool state is the one the eviction step left: the
  reserved array is the one of the call's start, no record is added, and the available
  array is empty. If the available array was already empty at the call, the pool state
  is unchanged altogether.
\<close>

theorem reserve_growth_failure_leaves_pool:
  assumes idle: "closeIdleConnections e w s = (None, w1, s1)"
    and empty: "pool s1 = []"
    and floor: "minpoolsize s \<le> int (length (reserved s))"
    and room: "int (length (reserved s)) < maxpoolsize s"
    and fail: "getConnection e (conns_asked w1) = Inl err"
  shows "reserve e w s = (CallbackErr err, w1\<lparr>conns_asked := Suc (conns_asked w1)\<rparr>, s1)
         \<and> reserved s1 = reserved s \<and> pool s1 = [] \<and> (pool s = [] \<longrightarrow> s1 = s)"
proof -
  obtain a where s1: "s1 = s\<lparr>pool := a\<rparr>"
    using closeIdleConnections_frame [of e w s] idle by auto
  have same: "s1\<lparr>pool := []\<rparr> = s1" using s1 empty by simp
  have "handOut e w1 s1 = (CallbackErr err, w1\<lparr>conns_asked := Suc (conns_asked w1)\<rparr>, s1)"
    using empty room s1 addConnectionSync_fail [OF fail] by (simp add: handOut_def)
  then have "reserve e w s = (CallbackErr err, w1\<lparr>conns_asked := Suc (conns_asked w1)\<rparr>, s1)"
    using idle empty floor s1 same by (simp add: reserve_def shuffle_Nil Let_def)
  moreover have "pool s = [] \<longrightarrow> s1 = s"
    using closeIdleConnections_empty [of s e w] idle by auto
  ultimately show ?thesis using s1 empty by simp
qed

theorem reserve_growth_failure_leaves_pool_witness:
  "closeIdleConnections (factory_fails_from 2) (world_after 2) two_reserved =
     (None, world_after 2, two_reserved)
   \<and> pool two_reserved = []
   \<and> minpoolsize two_reserved \<le> int (length (reserved two_reserved))
   \<and> int (length (reserved two_reserved)) < maxpoolsize two_reserved
   \<and> getConnection (factory_fails_from 2) (conns_asked (world_after 2)) = Inl (External 2)
   \<and> reserve (factory_fails_from 2) (world_after 2) two_reserved =
       (CallbackErr (External 2), (world_after 2)\<lparr>conns_asked := 3\<rparr>, two_reserved)
   \<and> closeIdleConnections (factory_fails_from 4) world_at_11000 evicting_pool =
       (None, world_at_11000\<lparr>clock_reads := 21, closed := [0]\<rparr>, evicting_pool\<lparr>pool := []\<rparr>)
   \<and> pool (evicting_pool\<lparr>pool := []\<rparr>) = []
   \<and> minpoolsize evicting_pool \<le> int (length (reserved evicting_pool))
   \<and> int (length (reserved evicting_pool)) < maxpoolsize evicting_pool
   \<and> getConnection (factory_fails_from 4)
         (conns_asked (world_at_11000\<lparr>clock_reads := 21, closed := [0]\<rparr>)) = Inl (External 4)
   \<and> reserve (factory_fails_from 4) world_at_11000 evicting_pool =
       (CallbackErr (External 4),
        world_at_11000\<lparr>clock_reads := 21, conns_asked := 5, closed := [0]\<rparr>,
        evicting_pool\<lparr>pool := []\<rparr>)
   \<and> reserved (evicting_pool\<lparr>pool := []\<rparr>) = reserved evicting_pool"
proof -
  have h1: "closeIdleConnections (factory_fails_from 2) (world_after 2) two_reserved =
     (None, world_after 2, two_reserved)"
    by (simp add: closeIdleConnections_def scenario_defs)
  have h2: "pool two_reserved = []" by (simp add: scenario_defs)
  have h3: "minpoolsize two_reserved \<le> int (length (reserved two_reserved))"
    by (simp add: scenario_defs)
  have h4: "int (length (reserved two_reserved)) < maxpoolsize two_reserved"
    by (simp add: scenario_defs)
  have h5: "getConnection (factory_fails_from 2) (conns_asked (world_after 2)) = Inl (External 2)"
    by (simp add: scenario_defs)
  have k1: "closeIdleConnections (factory_fails_from 4) world_at_11000 evicting_pool =
       (None, world_at_11000\<lparr>clock_reads := 21, closed := [0]\<rparr>, evicting_pool\<lparr>pool := []\<rparr>)"
    by code_simp
  have k2: "pool (evicting_pool\<lparr>pool := []\<rparr>) = []" by simp
  have k3: "minpoolsize evicting_pool \<le> int (length (reserved evicting_pool))"
    by (simp add: scenario_defs)
  have k4: "int (length (reserved evicting_pool)) < maxpoolsize evicting_pool"
    by (simp add: scenario_defs)
  have k5: "getConnection (factory_fails_from 4)
         (conns_asked (world_at_11000\<lparr>clock_reads := 21, closed := [0]\<rparr>)) = Inl (External 4)"
    by (simp add: scenario_defs)
  have c2: "conns_asked (world_after 2) = 2" by (simp add: scenario_defs)
  have c4: "(world_at_11000\<lparr>clock_reads := 21, closed := [0]\<rparr>)
              \<lparr>conns_asked := Suc (conns_asked (world_at_11000\<lparr>clock_reads := 21, closed := [0]\<rparr>))\<rparr>
            = world_at_11000\<lparr>clock_reads := 21, conns_asked := 5, closed := [0]\<rparr>"
    by (simp add: scenario_defs)
  from reserve_growth_failure_leaves_pool [OF h1 h2 h3 h4 h5] c2
  have a: "reserve (factory_fails_from 2) (world_after 2) two_reserved =
       (CallbackErr (External 2), (world_after 2)\<lparr>conns_asked := 3\<rparr>, two_reserved)"
    by (simp add: numeral_3_eq_3)
  from reserve_growth_failure_leaves_pool [OF k1 k2 k3 k4 k5] c4
  have b: "reserve (factory_fails_from 4) world_at_11000 evicting_pool =
       (CallbackErr (External 4),
        world_at_11000\<lparr>clock_reads := 21, conns_asked := 5, closed := [0]\<rparr>,
        evicting_pool\<lparr>pool := []\<rparr>)
     \<and> reserved (evicting_pool\<lparr>pool := []\<rparr>) = reserved evicting_pool"
    by simp
  from a b h1 h2 h3 h4 h5 k1 k2 k3 k4 k5 show ?thesis by blast
qed

text \<open>
  C5 as stated fails: the failing call can itself have emptied the available array.
  With \<open>maxidle = 1000\<close>, one available record idle for 1500 ms and two reserved ones,
  \<open>reserve\<close> evicts the record, finds the available array empty, fails to create a
  connection and calls back with the error; the available array is no longer what it
  was before the call.
\<close>

theorem reserve_growth_failure_after_eviction_counterexample:
  "pool evicting_pool = [record_of 0 (Some 9500)]
   \<and> pool (snd (snd (closeIdleConnections (factory_fails_from 4) world_at_11000 evicting_pool))) = []
   \<and> int (length (reserved evicting_pool)) < maxpoolsize evicting_pool
   \<and> getConnection (factory_fails_from 4) 4 = Inl (External 4)
   \<and> reserve (factory_fails_from 4) world_at_11000 evicting_pool =
       (CallbackErr (External 4),
        world_at_11000\<lparr>clock_reads := 21, conns_asked := 5, closed := [0]\<rparr>,
        evicting_pool\<lparr>pool := []\<rparr>)
   \<and> pool (snd (snd (reserve (factory_fails_from 4) world_at_11000 evicting_pool)))
       \<noteq> pool evicting_pool"
  by code_simp

subsection \<open>reserve: top-up to the minimum\<close>

text \<open>
  C4: if, after idle eviction (state \<open>s1\<close>) and shuffling (array \<open>array\<close>), the two arrays
  together hold fewer than \<open>minpoolsize\<close> records and the driver manager answers the next
  \<open>n = minpoolsize - (|available| + |reserved|)\<close> requests, then exactly \<open>n\<close> connections
  are created, each put in front of the available array (the last created first),
  the one handed out is the last created, and afterwards the two arrays together hold
  exactly \<open>minpoolsize\<close> records.
\<close>

theorem reserve_tops_up_to_minpoolsize:
  assumes idle: "closeIdleConnections e w s = (None, w1, s1)"
    and shuf: "shuffle e w1 (pool s1) = (w2, array)"
    and short: "int (length (pool s1) + length (reserved s1)) < minpoolsize s"
    and n: "n = nat (minpoolsize s - int (length (pool s1) + length (reserved s1)))"
    and ok: "\<forall>i<n. \<exists>h. getConnection e (conns_asked w2 + i) = Inr h"
  shows "\<exists>w' c new.
           reserve e w s =
             (CallbackOk c, w', s1\<lparr>pool := new @ array, reserved := c # reserved s1\<rparr>)
         \<and> map conn (rev (c # new)) =
             map (\<lambda>i. Connection (projr (getConnection e (conns_asked w2 + i)))) [0..<n]
         \<and> conns_asked w' = conns_asked w2 + n
         \<and> int (length (new @ array) + length (c # reserved s1)) = minpoolsize s"
proof -
  obtain a where s1: "s1 = s\<lparr>pool := a\<rparr>"
    using closeIdleConnections_frame [of e w s] idle by auto
  have len: "length array = length (pool s1)"
    using shuffle_length [of e w1 "pool s1"] shuf by simp
  let ?s2 = "s1\<lparr>pool := array\<rparr>"
  from topUp_ok [OF ok, of ?s2] obtain w3 new0 where
    t: "topUp e n w2 ?s2 = (None, w3, ?s2\<lparr>pool := new0 @ pool ?s2\<rparr>)"
       "conns_asked w3 = conns_asked w2 + n"
       "map conn (rev new0) =
          map (\<lambda>i. Connection (projr (getConnection e (conns_asked w2 + i)))) [0..<n]"
    by blast
  have "length (map conn (rev new0)) = n" using t(3) by simp
  then have ln: "length new0 = n" by simp
  have "0 < n" using short n by simp
  with ln obtain c new where new0: "new0 = c # new" by (cases new0) auto
  have "handOut e w3 (s1\<lparr>pool := new0 @ array\<rparr>) =
          (CallbackOk c, w3, s1\<lparr>pool := new @ array, reserved := c # reserved s1\<rparr>)"
    using new0 by (simp add: handOut_def)
  then have "reserve e w s =
          (CallbackOk c, w3, s1\<lparr>pool := new @ array, reserved := c # reserved s1\<rparr>)"
    using idle shuf short n t(1) s1 len by (simp add: reserve_def Let_def)
  moreover have "int (length (new @ array) + length (c # reserved s1)) = minpoolsize s"
    using ln new0 n short len by simp
  ultimately show ?thesis using t(2,3) new0 by blast
qed

theorem reserve_tops_up_to_minpoolsize_witness:
  "closeIdleConnections steady_env world0 (Pool cfg23) = (None, world0, Pool cfg23)
   \<and> shuffle steady_env world0 (pool (Pool cfg23)) = (world0, [])
   \<and> int (length (pool (Pool cfg23)) + length (reserved (Pool cfg23))) < minpoolsize (Pool cfg23)
   \<and> (2::nat) = nat (minpoolsize (Pool cfg23)
                      - int (length (pool (Pool cfg23)) + length (reserved (Pool cfg23))))
   \<and> getConnection steady_env (conns_asked world0 + 0) = Inr 0
   \<and> getConnection steady_env (conns_asked world0 + 1) = Inr 1
   \<and> reserve steady_env world0 (Pool cfg23) =
       (CallbackOk (record_of 1 None), world_after 2,
        (Pool cfg23)\<lparr>pool := [record_of 0 None], reserved := [record_of 1 None]\<rparr>)
   \<and> (\<exists>w' c new.
         reserve steady_env world0 (Pool cfg23) =
           (CallbackOk c, w', (Pool cfg23)\<lparr>pool := new @ [], reserved := c # reserved (Pool cfg23)\<rparr>)
       \<and> map conn (rev (c # new)) =
           map (\<lambda>i. Connection (projr (getConnection steady_env (conns_asked world0 + i)))) [0..<2]
       \<and> conns_asked w' = conns_asked world0 + 2
       \<and> int (length (new @ []) + length (c # reserved (Pool cfg23))) = minpoolsize (Pool cfg23))"
proof -
  have h1: "closeIdleConnections steady_env world0 (Pool cfg23) = (None, world0, Pool cfg23)"
    by (simp add: closeIdleConnections_def scenario_defs)
  have h2: "shuffle steady_env world0 (pool (Pool cfg23)) = (world0, [])"
    by (simp add: shuffle_def scenario_defs)
  have h3: "int (length (pool (Pool cfg23)) + length (reserved (Pool cfg23)))
              < minpoolsize (Pool cfg23)"
    by (simp add: scenario_defs)
  have h4: "(2::nat) = nat (minpoolsize (Pool cfg23)
                      - int (length (pool (Pool cfg23)) + length (reserved (Pool cfg23))))"
    by (simp add: scenario_defs)
  have h5: "\<forall>i<2. \<exists>h. getConnection steady_env (conns_asked world0 + i) = Inr h"
    by (simp add: scenario_defs)
  have g: "getConnection steady_env (conns_asked world0 + 0) = Inr 0"
    "getConnection steady_env (conns_asked world0 + 1) = Inr 1"
    by (simp_all add: scenario_defs)
  have v: "reserve steady_env world0 (Pool cfg23) =
       (CallbackOk (record_of 1 None), world_after 2,
        (Pool cfg23)\<lparr>pool := [record_of 0 None], reserved := [record_of 1 None]\<rparr>)"
    by code_simp
  from reserve_tops_up_to_minpoolsize [OF h1 h2 h3 h4 h5] h1 h2 h3 h4 g v
  show ?thesis by blast
qed

text \<open>
  C10: if the driver manager answers the first \<open>j\<close> requests of the top-up loop and
  fails on the next one (still inside the loop), \<open>reserve\<close> ends with that error thrown,
  not with its callback, and the \<open>j\<close> connections created before are in front of the
  available array; the reserved array is untouched.
\<close>

theorem reserve_topup_failure_throws:
  assumes idle: "closeIdleConnections e w s = (None, w1, s1)"
    and shuf: "shuffle e w1 (pool s1) = (w2, array)"
    and j: "int j < minpoolsize s - int (length (pool s1) + length (reserved s1))"
    and ok: "\<forall>i<j. \<exists>h. getConnection e (conns_asked w2 + i) = Inr h"
    and fail: "getConnection e (conns_asked w2 + j) = Inl err"
  shows "\<exists>w' new.
           reserve e w s = (Throws err, w', s1\<lparr>pool := new @ array\<rparr>)
         \<and> map conn (rev new) =
             map (\<lambda>i. Connection (projr (getConnection e (conns_asked w2 + i)))) [0..<j]
         \<and> reserved s1 = reserved s"
proof -
  obtain a where s1: "s1 = s\<lparr>pool := a\<rparr>"
    using closeIdleConnections_frame [of e w s] idle by auto
  have len: "length array = length (pool s1)"
    using shuffle_length [of e w1 "pool s1"] shuf by simp
  let ?s2 = "s1\<lparr>pool := array\<rparr>"
  let ?n = "nat (minpoolsize s - int (length (pool s1) + length (reserved s1)))"
  have jn: "j < ?n" using j by simp
  from topUp_fail [OF jn ok fail, of ?s2] obtain w3 new where
    t: "topUp e ?n w2 ?s2 = (Some err, w3, ?s2\<lparr>pool := new @ pool ?s2\<rparr>)"
       "map conn (rev new) =
          map (\<lambda>i. Connection (projr (getConnection e (conns_asked w2 + i)))) [0..<j]"
    by blast
  have "reserve e w s = (Throws err, w3, s1\<lparr>pool := new @ array\<rparr>)"
    using idle shuf j t(1) s1 len by (simp add: reserve_def Let_def)
  then show ?thesis using t(2) s1 by auto
qed

theorem reserve_topup_failure_throws_witness:
  "closeIdleConnections (factory_fails_from 1) world0 (Pool cfg23) = (None, world0, Pool cfg23)
   \<and> shuffle (factory_fails_from 1) world0 (pool (Pool cfg23)) = (world0, [])
   \<and> int 1 < minpoolsize (Pool cfg23)
               - int (length (pool (Pool cfg23)) + length (reserved (Pool cfg23)))
   \<and> getConnection (factory_fails_from 1) (conns_asked world0 + 0) = Inr 0
   \<and> getConnection (factory_fails_from 1) (conns_asked world0 + 1) = Inl (External 1)
   \<and> reserve (factory_fails_from 1) world0 (Pool cfg23) =
       (Throws (External 1), world0\<lparr>uuids_made := 1, conns_asked := 2\<rparr>,
        (Pool cfg23)\<lparr>pool := [record_of 0 None]\<rparr>)
   \<and> (\<exists>w' new.
         reserve (factory_fails_from 1) world0 (Pool cfg23) =
           (Throws (External 1), w', (Pool cfg23)\<lparr>pool := new @ []\<rparr>)
       \<and> map conn (rev new) =
           map (\<lambda>i. Connection (projr (getConnection (factory_fails_from 1)
                                         (conns_asked world0 + i)))) [0..<1]
       \<and> reserved (Pool cfg23) = reserved (Pool cfg23))"
proof -
  have h1: "closeIdleConnections (factory_fails_from 1) world0 (Pool cfg23) =
              (None, world0, Pool cfg23)"
    by (simp add: closeIdleConnections_def scenario_defs)
  have h2: "shuffle (factory_fails_from 1) world0 (pool (Pool cfg23)) = (world0, [])"
    by (simp add: shuffle_def scenario_defs)
  have h3: "int 1 < minpoolsize (Pool cfg23)
               - int (length (pool (Pool cfg23)) + length (reserved (Pool cfg23)))"
    by (simp add: scenario_defs)
  have h4: "\<forall>i<1. \<exists>h. getConnection (factory_fails_from 1) (conns_asked world0 + i) = Inr h"
    by (simp add: scenario_defs)
  have h5: "getConnection (factory_fails_from 1) (conns_asked world0 + 1) = Inl (External 1)"
    by (simp add: scenario_defs)
  have g: "getConnection (factory_fails_from 1) (conns_asked world0 + 0) = Inr 0"
    by (simp add: scenario_defs)
  have v: "reserve (factory_fails_from 1) world0 (Pool cfg23) =
       (Throws (External 1), world0\<lparr>uuids_made := 1, conns_asked := 2\<rparr>,
        (Pool cfg23)\<lparr>pool := [record_of 0 None]\<rparr>)"
    by code_simp
  from reserve_topup_failure_throws [OF h1 h2 h3 h4 h5] h1 h2 h3 g h5 v
  show ?thesis by blast
qed

subsection \<open>Idle eviction\<close>

lemma handles_append: "handles (xs @ ys) = handles xs @ handles ys"
  by (induction xs) (simp_all split: connprop.splits)

lemma closeIdleLoop_scan:
  "\<forall>c \<in> set xs. \<exists>h. conn c = Connection h \<Longrightarrow>
   \<forall>k < length (filter (\<lambda>c. lastIdle_lt (lastIdle c) m) xs).
      closeResult e (length (closed w) + k) = None \<Longrightarrow>
   closeIdleLoop e m (length xs) w (xs @ ys) =
     (None,
      w\<lparr>closed := closed w @ rev (handles (filter (\<lambda>c. lastIdle_lt (lastIdle c) m) xs))\<rparr>,
      filter (\<lambda>c. \<not> lastIdle_lt (lastIdle c) m) xs @ ys)"
proof (induction xs arbitrary: w ys rule: rev_induct)
  case Nil
  then show ?case by simp
next
  case (snoc c xs)
  from snoc.prems(1) obtain h where h: "conn c = Connection h" by auto
  have all: "\<forall>c \<in> set xs. \<exists>h. conn c = Connection h" using snoc.prems(1) by simp
  show ?case
  proof (cases "lastIdle_lt (lastIdle c) m")
    case True
    have first: "closeResult e (length (closed w)) = None"
      using snoc.prems(2) True by force
    let ?w1 = "w\<lparr>closed := closed w @ [h]\<rparr>"
    have rest: "\<forall>k < length (filter (\<lambda>c. lastIdle_lt (lastIdle c) m) xs).
                  closeResult e (length (closed ?w1) + k) = None"
    proof (intro allI impI)
      fix k assume "k < length (filter (\<lambda>c. lastIdle_lt (lastIdle c) m) xs)"
      then have "Suc k < length (filter (\<lambda>c. lastIdle_lt (lastIdle c) m) (xs @ [c]))"
        using True by simp
      with snoc.prems(2) have "closeResult e (length (closed w) + Suc k) = None" by blast
      then show "closeResult e (length (closed ?w1) + k) = None" by simp
    qed
    have "closeIdleLoop e m (length (xs @ [c])) w ((xs @ [c]) @ ys) =
            closeIdleLoop e m (length xs) ?w1 (xs @ ys)"
      using True h first by (simp add: close_def splice1_def nth_append)
    also have "\<dots> = (None,
        ?w1\<lparr>closed := closed ?w1 @ rev (handles (filter (\<lambda>c. lastIdle_lt (lastIdle c) m) xs))\<rparr>,
        filter (\<lambda>c. \<not> lastIdle_lt (lastIdle c) m) xs @ ys)"
      by (rule snoc.IH [OF all rest])
    finally show ?thesis using True h by (simp add: handles_append)
  next
    case False
    have rest: "\<forall>k < length (filter (\<lambda>c. lastIdle_lt (lastIdle c) m) xs).
                  closeResult e (length (closed w) + k) = None"
      using snoc.prems(2) False by simp
    have "closeIdleLoop e m (length (xs @ [c])) w ((xs @ [c]) @ ys) =
            closeIdleLoop e m (length xs) w (xs @ c # ys)"
      using False by (simp add: nth_append)
    also have "\<dots> = (None,
        w\<lparr>closed := closed w @ rev (handles (filter (\<lambda>c. lastIdle_lt (lastIdle c) m) xs))\<rparr>,
        filter (\<lambda>c. \<not> lastIdle_lt (lastIdle c) m) xs @ c # ys)"
      by (rule snoc.IH [OF all rest])
    finally show ?thesis using False by simp
  qed
qed

text \<open>
  The eviction step on its own: without a (truthy) \<open>maxidle\<close> it changes nothing; with
  \<open>maxidle = m\<close>, on records that carry a connection and while the closes it issues
  succeed, it reads the clock once, closes the connections of exactly the records with
  \<open>lastIdle < now - m\<close>, last record first, and keeps exactly the other records, in their
  order. The reserved array is never changed.
\<close>

lemma closeIdleConnections_removes_expired:
  "(\<not> truthy (maxidle s) \<longrightarrow> closeIdleConnections e w s = (None, w, s))
   \<and> (maxidle s = Some m \<and> m \<noteq> 0
        \<and> (\<forall>c \<in> set (pool s). \<exists>h. conn c = Connection h)
        \<and> (\<forall>k < length (filter (\<lambda>c. lastIdle_lt (lastIdle c) (now e (clock_reads w) - m)) (pool s)).
              closeResult e (length (closed w) + k) = None)
      \<longrightarrow> closeIdleConnections e w s =
            (None,
             w\<lparr>clock_reads := Suc (clock_reads w),
               closed := closed w @ rev (handles
                 (filter (\<lambda>c. lastIdle_lt (lastIdle c) (now e (clock_reads w) - m)) (pool s)))\<rparr>,
             s\<lparr>pool := filter (\<lambda>c. \<not> lastIdle_lt (lastIdle c) (now e (clock_reads w) - m))
                         (pool s)\<rparr>))
   \<and> reserved (snd (snd (closeIdleConnections e w s))) = reserved s"
proof (intro conjI impI)
  assume "\<not> truthy (maxidle s)"
  then show "closeIdleConnections e w s = (None, w, s)"
    by (simp add: closeIdleConnections_def)
next
  let ?cut = "now e (clock_reads w) - m"
  let ?w0 = "w\<lparr>clock_reads := Suc (clock_reads w)\<rparr>"
  assume a: "maxidle s = Some m \<and> m \<noteq> 0
        \<and> (\<forall>c \<in> set (pool s). \<exists>h. conn c = Connection h)
        \<and> (\<forall>k < length (filter (\<lambda>c. lastIdle_lt (lastIdle c) ?cut) (pool s)).
              closeResult e (length (closed w) + k) = None)"
  then have all: "\<forall>c \<in> set (pool s). \<exists>h. conn c = Connection h"
    and cl: "\<forall>k < length (filter (\<lambda>c. lastIdle_lt (lastIdle c) ?cut) (pool s)).
              closeResult e (length (closed ?w0) + k) = None"
    by simp_all
  from closeIdleLoop_scan [OF all cl, of "[]"] a
  show "closeIdleConnections e w s =
            (None,
             w\<lparr>clock_reads := Suc (clock_reads w),
               closed := closed w @ rev (handles (filter (\<lambda>c. lastIdle_lt (lastIdle c) ?cut) (pool s)))\<rparr>,
             s\<lparr>pool := filter (\<lambda>c. \<not> lastIdle_lt (lastIdle c) ?cut) (pool s)\<rparr>)"
    by (simp add: closeIdleConnections_def closeIdleConnectionsInArray_def)
next
  obtain a where "snd (snd (closeIdleConnections e w s)) = s\<lparr>pool := a\<rparr>"
    using closeIdleConnections_frame by blast
  then show "reserved (snd (snd (closeIdleConnections e w s))) = reserved s" by simp
qed

lemma reserve_split:
  "reserve e w s =
     (case closeIdleConnections e w s of
        (Some err, w1, s1) \<Rightarrow> (Throws err, w1, s1)
      | (None, w1, s1) \<Rightarrow> reserveAfterEviction e w1 s1)"
  by (simp add: reserve_def reserveAfterEviction_def split: prod.splits option.splits)

lemma addConnectionSync_closed: "closed (snd (addConnectionSync e k mi w)) = closed w"
  by (cases "getConnection e (conns_asked w)") (simp_all add: addConnectionSync_def Let_def)

lemma topUp_closed_reserved:
  "closed (fst (snd (topUp e n w s))) = closed w
   \<and> reserved (snd (snd (topUp e n w s))) = reserved s"
proof (induction n arbitrary: w s)
  case 0
  then show ?case by simp
next
  case (Suc n)
  obtain r w1 where a: "addConnectionSync e (ka s) (maxidle s) w = (r, w1)"
    by (cases "addConnectionSync e (ka s) (maxidle s) w")
  have c: "closed w1 = closed w" using addConnectionSync_closed [of e "ka s" "maxidle s" w] a by simp
  show ?case
  proof (cases r)
    case (Inl err)
    then show ?thesis using a c by simp
  next
    case (Inr x)
    then show ?thesis using a c Suc.IH [of w1 "s\<lparr>pool := x # pool s\<rparr>"] by simp
  qed
qed

lemma handOut_closed_reserved:
  "closed (fst (snd (handOut e w s))) = closed w
   \<and> (\<exists>front. reserved (snd (snd (handOut e w s))) = front @ reserved s)"
proof (cases "pool s")
  case (Cons c rest)
  then show ?thesis by (simp add: handOut_def)
next
  case Nil
  obtain r w1 where a: "addConnectionSync e (ka s) (maxidle s) w = (r, w1)"
    by (cases "addConnectionSync e (ka s) (maxidle s) w")
  have c: "closed w1 = closed w" using addConnectionSync_closed [of e "ka s" "maxidle s" w] a by simp
  show ?thesis using Nil a c by (cases r) (simp_all add: handOut_def)
qed

lemma reserveAfterEviction_closed_reserved:
  "closed (fst (snd (reserveAfterEviction e w s))) = closed w
   \<and> (\<exists>front. reserved (snd (snd (reserveAfterEviction e w s))) = front @ reserved s)"
proof -
  obtain w2 array where sh: "shuffle e w (pool s) = (w2, array)" by (cases "shuffle e w (pool s)")
  have c2: "closed w2 = closed w"
    using sh shuffleLoop_world [of e "length (pool s) - 1" w "pool s"] by (simp add: shuffle_def)
  let ?s2 = "s\<lparr>pool := array\<rparr>"
  let ?times = "minpoolsize s - int (length (array @ reserved s))"
  obtain r3 w3 s3 where t: "(if ?times > 0 then topUp e (nat ?times) w2 ?s2 else (None, w2, ?s2))
                              = (r3, w3, s3)"
    by (cases "if ?times > 0 then topUp e (nat ?times) w2 ?s2 else (None, w2, ?s2)") auto
  have c3: "closed w3 = closed w \<and> reserved s3 = reserved s"
    using t c2 topUp_closed_reserved [of e "nat ?times" w2 ?s2] by (auto split: if_splits)
  have eq: "reserveAfterEviction e w s =
          (case r3 of Some err \<Rightarrow> (Throws err, w3, s3) | None \<Rightarrow> handOut e w3 s3)"
  proof (cases "?times > 0")
    case True
    with t have "topUp e (nat ?times) w2 ?s2 = (r3, w3, s3)" by simp
    then show ?thesis using sh True
      by (cases r3) (simp_all add: reserveAfterEviction_def Let_def)
  next
    case False
    with t have "r3 = None" "w3 = w2" "s3 = ?s2" by simp_all
    then show ?thesis using sh False by (simp add: reserveAfterEviction_def Let_def)
  qed
  show ?thesis
  proof (cases r3)
    case (Some err)
    then show ?thesis using eq c3 by simp
  next
    case None
    then show ?thesis using eq c3 handOut_closed_reserved [of e w3 s3] by simp
  qed
qed

text \<open>
  C6: \<open>reserve\<close> begins with the eviction step. Without a (truthy) \<open>maxidle\<close> the step is a
  no-op: \<open>reserve\<close> is the rest of its body on the unchanged state and closes nothing.
  With \<open>maxidle = m\<close>, on an available array of records that carry a connection, and as
  long as the closes succeed, \<open>reserve\<close> reads the clock, closes the connections of exactly
  the records with \<open>lastIdle < now - m\<close> (last record first, and no other connection
  during the whole call), and then runs the rest of its body on the available array
  without exactly those records; the records of the reserved array all stay where they
  are, whatever their \<open>lastIdle\<close>.
\<close>

theorem reserve_evicts_idle_first:
  "(\<not> truthy (maxidle s) \<longrightarrow>
      reserve e w s = reserveAfterEviction e w s
      \<and> closed (fst (snd (reserve e w s))) = closed w)
   \<and> (maxidle s = Some m \<and> m \<noteq> 0
        \<and> (\<forall>c \<in> set (pool s). \<exists>h. conn c = Connection h)
        \<and> (\<forall>k < length (filter (\<lambda>c. lastIdle_lt (lastIdle c) (now e (clock_reads w) - m)) (pool s)).
              closeResult e (length (closed w) + k) = None)
      \<longrightarrow> reserve e w s =
            reserveAfterEviction e
              (w\<lparr>clock_reads := Suc (clock_reads w),
                 closed := closed w @ rev (handles
                   (filter (\<lambda>c. lastIdle_lt (lastIdle c) (now e (clock_reads w) - m)) (pool s)))\<rparr>)
              (s\<lparr>pool := filter (\<lambda>c. \<not> lastIdle_lt (lastIdle c) (now e (clock_reads w) - m))
                            (pool s)\<rparr>)
          \<and> closed (fst (snd (reserve e w s))) =
              closed w @ rev (handles
                (filter (\<lambda>c. lastIdle_lt (lastIdle c) (now e (clock_reads w) - m)) (pool s)))
          \<and> (\<exists>front. reserved (snd (snd (reserve e w s))) = front @ reserved s))"
proof (intro conjI impI)
  assume a: "\<not> truthy (maxidle s)"
  then have c: "closeIdleConnections e w s = (None, w, s)"
    by (simp add: closeIdleConnections_def)
  then show r: "reserve e w s = reserveAfterEviction e w s" by (simp add: reserve_split)
  show "closed (fst (snd (reserve e w s))) = closed w"
    using r reserveAfterEviction_closed_reserved [of e w s] by simp
next
  let ?cut = "now e (clock_reads w) - m"
  let ?old = "filter (\<lambda>c. lastIdle_lt (lastIdle c) ?cut) (pool s)"
  let ?w1 = "w\<lparr>clock_reads := Suc (clock_reads w), closed := closed w @ rev (handles ?old)\<rparr>"
  let ?s1 = "s\<lparr>pool := filter (\<lambda>c. \<not> lastIdle_lt (lastIdle c) ?cut) (pool s)\<rparr>"
  assume a: "maxidle s = Some m \<and> m \<noteq> 0
        \<and> (\<forall>c \<in> set (pool s). \<exists>h. conn c = Connection h)
        \<and> (\<forall>k < length ?old. closeResult e (length (closed w) + k) = None)"
  have c: "closeIdleConnections e w s = (None, ?w1, ?s1)"
    using closeIdleConnections_removes_expired [of s e w m] a by blast
  then have r: "reserve e w s = reserveAfterEviction e ?w1 ?s1" by (simp add: reserve_split)
  then show "reserve e w s = reserveAfterEviction e ?w1 ?s1" .
  show "closed (fst (snd (reserve e w s))) = closed w @ rev (handles ?old)"
    using r reserveAfterEviction_closed_reserved [of e ?w1 ?s1] by simp
  show "\<exists>front. reserved (snd (snd (reserve e w s))) = front @ reserved s"
    using r reserveAfterEviction_closed_reserved [of e ?w1 ?s1] by simp
qed

theorem reserve_evicts_idle_first_witness:
  "\<not> truthy (maxidle two_reserved)
   \<and> reserve steady_env (world_after 2) two_reserved =
       reserveAfterEviction steady_env (world_after 2) two_reserved
   \<and> closed (fst (snd (reserve steady_env (world_after 2) two_reserved))) = []
   \<and> maxidle idle_pool = Some 1000 \<and> (1000::int) \<noteq> 0
   \<and> map conn (pool idle_pool) = [Connection 0, Connection 1, Connection 2]
   \<and> map lastIdle (pool idle_pool) = [Some 9500, Some 10500, Some 10000]
   \<and> now steady_env (clock_reads world_at_11000) = 11000
   \<and> closeResult steady_env (length (closed world_at_11000) + 0) = None
   \<and> reserve steady_env world_at_11000 idle_pool =
       reserveAfterEviction steady_env (world_at_11000\<lparr>clock_reads := 21, closed := [0]\<rparr>)
         (idle_pool\<lparr>pool := [record_of 1 (Some 10500), record_of 2 (Some 10000)]\<rparr>)
   \<and> reserve steady_env world_at_11000 idle_pool =
       (CallbackOk (record_of 2 (Some 10000)),
        world_at_11000\<lparr>clock_reads := 21, draws := 1, closed := [0]\<rparr>,
        idle_pool\<lparr>pool := [record_of 1 (Some 10500)],
                  reserved := [record_of 2 (Some 10000), record_of 3 (Some 1000)]\<rparr>)
   \<and> closed (fst (snd (reserve steady_env world_at_11000 idle_pool))) = [0]
   \<and> (\<exists>front. reserved (snd (snd (reserve steady_env world_at_11000 idle_pool))) =
         front @ [record_of 3 (Some 1000)])"
proof -
  have a: "\<not> truthy (maxidle two_reserved)" by (simp add: scenario_defs)
  have b: "maxidle idle_pool = Some 1000 \<and> (1000::int) \<noteq> 0
     \<and> (\<forall>c \<in> set (pool idle_pool). \<exists>h. conn c = Connection h)
     \<and> (\<forall>k < length (filter (\<lambda>c. lastIdle_lt (lastIdle c)
                        (now steady_env (clock_reads world_at_11000) - 1000)) (pool idle_pool)).
          closeResult steady_env (length (closed world_at_11000) + k) = None)"
    by (simp add: scenario_defs)
  have t: "now steady_env (clock_reads world_at_11000) = 11000" by (simp add: scenario_defs)
  have f: "filter (\<lambda>c. lastIdle_lt (lastIdle c) 10000) (pool idle_pool) = [record_of 0 (Some 9500)]"
    "filter (\<lambda>c. \<not> lastIdle_lt (lastIdle c) 10000) (pool idle_pool) =
       [record_of 1 (Some 10500), record_of 2 (Some 10000)]"
    "reserved idle_pool = [record_of 3 (Some 1000)]"
    "closed world_at_11000 = []" "clock_reads world_at_11000 = 20"
    "closed (world_after 2) = []"
    by (simp_all add: scenario_defs)
  have h: "handles [record_of 0 (Some 9500)] = [0]" by (simp add: record_of_def)
  have g: "map conn (pool idle_pool) = [Connection 0, Connection 1, Connection 2]"
    "map lastIdle (pool idle_pool) = [Some 9500, Some 10500, Some 10000]"
    "closeResult steady_env (length (closed world_at_11000) + 0) = None"
    by (simp_all add: scenario_defs)
  have v: "reserve steady_env world_at_11000 idle_pool =
       (CallbackOk (record_of 2 (Some 10000)),
        world_at_11000\<lparr>clock_reads := 21, draws := 1, closed := [0]\<rparr>,
        idle_pool\<lparr>pool := [record_of 1 (Some 10500)],
                  reserved := [record_of 2 (Some 10000), record_of 3 (Some 1000)]\<rparr>)"
    by code_simp
  from reserve_evicts_idle_first
         [where s = two_reserved and e = steady_env and w = "world_after 2" and m = 1000] a
  have n0: "reserve steady_env (world_after 2) two_reserved =
       reserveAfterEviction steady_env (world_after 2) two_reserved
     \<and> closed (fst (snd (reserve steady_env (world_after 2) two_reserved))) =
         closed (world_after 2)"
    by blast
  have n: "reserve steady_env (world_after 2) two_reserved =
       reserveAfterEviction steady_env (world_after 2) two_reserved
     \<and> closed (fst (snd (reserve steady_env (world_after 2) two_reserved))) = []"
    using n0 [THEN conjunct1] n0 [THEN conjunct2, unfolded f(6)] by (rule conjI)
  have f': "filter (\<lambda>c. lastIdle_lt (lastIdle c)
                 (now steady_env (clock_reads world_at_11000) - 1000)) (pool idle_pool) =
              [record_of 0 (Some 9500)]"
    "filter (\<lambda>c. \<not> lastIdle_lt (lastIdle c)
                 (now steady_env (clock_reads world_at_11000) - 1000)) (pool idle_pool) =
       [record_of 1 (Some 10500), record_of 2 (Some 10000)]"
    "Suc (clock_reads world_at_11000) = 21"
    by (simp_all add: scenario_defs)
  note i0 = reserve_evicts_idle_first
         [where s = idle_pool and e = steady_env and w = world_at_11000 and m = 1000,
          THEN conjunct2, THEN mp, OF b]
  note i1 = i0 [unfolded f' f(3,4) h, simplified, folded One_nat_def]
  have i: "reserve steady_env world_at_11000 idle_pool =
       reserveAfterEviction steady_env (world_at_11000\<lparr>clock_reads := 21, closed := [0]\<rparr>)
         (idle_pool\<lparr>pool := [record_of 1 (Some 10500), record_of 2 (Some 10000)]\<rparr>)
     \<and> closed (fst (snd (reserve steady_env world_at_11000 idle_pool))) = [0]
     \<and> (\<exists>front. reserved (snd (snd (reserve steady_env world_at_11000 idle_pool))) =
         front @ [record_of 3 (Some 1000)])"
    using i1 by blast
  from a b n t g v i show ?thesis by blast
qed

subsection \<open>lastIdle\<close>

text \<open>
  C8, as the code has it: \<open>lastIdle\<close> is written when the record is created (by
  \<open>addConnectionSync\<close> or \<open>addConnection\<close>, to the clock reading of that moment, and only
  if \<open>maxIdle\<close> is truthy). Handing a record out moves it to the reserved array as it
  is, and \<open>release\<close> puts its argument in front of the available array as it is.
\<close>

theorem lastIdle_written_only_at_creation:
  "(addConnectionSync e k mi w = (Inr c, w1) \<longrightarrow>
      lastIdle c = (if truthy mi then Some (now e (clock_reads w)) else None))
   \<and> (addConnection e k mi w = (Inr c, w1) \<longrightarrow>
      lastIdle c = (if truthy mi then Some (now e (clock_reads w)) else None))
   \<and> (pool s = c # rest \<longrightarrow>
      handOut e w s = (CallbackOk c, w, s\<lparr>pool := rest, reserved := c # reserved s\<rparr>))
   \<and> pool (snd (release (JObject c) s)) = c # pool s"
  by (auto simp: addConnectionSync_def addConnection_def handOut_def release_def Let_def
           split: sum.splits if_splits)

theorem lastIdle_written_only_at_creation_witness:
  "addConnectionSync steady_env (ka (Pool cfg_cycle)) (Some 100000) world0 =
     (Inr (record_of 0 (Some 1000)), world0\<lparr>clock_reads := 1, uuids_made := 1, conns_asked := 1\<rparr>)
   \<and> addConnection steady_env (ka (Pool cfg_cycle)) (Some 100000) world0 =
     (Inr (record_of 0 (Some 1000)), world0\<lparr>clock_reads := 1, uuids_made := 1, conns_asked := 1\<rparr>)
   \<and> pool ((Pool cfg_cycle)\<lparr>pool := [record_of 0 (Some 1000)]\<rparr>) = record_of 0 (Some 1000) # []
   \<and> lastIdle (record_of 0 (Some 1000)) =
       (if truthy (Some 100000) then Some (now steady_env (clock_reads world0)) else None)
   \<and> handOut steady_env world0 ((Pool cfg_cycle)\<lparr>pool := [record_of 0 (Some 1000)]\<rparr>) =
       (CallbackOk (record_of 0 (Some 1000)), world0,
        (Pool cfg_cycle)\<lparr>pool := [], reserved := [record_of 0 (Some 1000)]\<rparr>)
   \<and> pool (snd (release (JObject (record_of 0 (Some 1000)))
                  ((Pool cfg_cycle)\<lparr>reserved := [record_of 0 (Some 1000)]\<rparr>))) =
       [record_of 0 (Some 1000)]"
proof -
  have a: "addConnectionSync steady_env (ka (Pool cfg_cycle)) (Some 100000) world0 =
     (Inr (record_of 0 (Some 1000)), world0\<lparr>clock_reads := 1, uuids_made := 1, conns_asked := 1\<rparr>)"
    by (simp add: addConnectionSync_def scenario_defs)
  have b: "addConnection steady_env (ka (Pool cfg_cycle)) (Some 100000) world0 =
     (Inr (record_of 0 (Some 1000)), world0\<lparr>clock_reads := 1, uuids_made := 1, conns_asked := 1\<rparr>)"
    by (simp add: addConnection_def scenario_defs)
  have c: "pool ((Pool cfg_cycle)\<lparr>pool := [record_of 0 (Some 1000)]\<rparr>) = record_of 0 (Some 1000) # []"
    by simp
  have d: "pool ((Pool cfg_cycle)\<lparr>reserved := [record_of 0 (Some 1000)]\<rparr>) = []"
    "reserved (Pool cfg_cycle) = []"
    by (simp_all add: scenario_defs)
  from lastIdle_written_only_at_creation
         [where e = steady_env and k = "ka (Pool cfg_cycle)" and mi = "Some 100000"
            and w = world0 and c = "record_of 0 (Some 1000)"
            and ?w1.0 = "world0\<lparr>clock_reads := 1, uuids_made := 1, conns_asked := 1\<rparr>"
            and s = "(Pool cfg_cycle)\<lparr>pool := [record_of 0 (Some 1000)]\<rparr>" and rest = "[]"]
       lastIdle_written_only_at_creation
         [where e = steady_env and k = "ka (Pool cfg_cycle)" and mi = "Some 100000"
            and w = world0 and c = "record_of 0 (Some 1000)"
            and ?w1.0 = "world0\<lparr>clock_reads := 1, uuids_made := 1, conns_asked := 1\<rparr>"
            and s = "(Pool cfg_cycle)\<lparr>reserved := [record_of 0 (Some 1000)]\<rparr>" and rest = "[]"]
       a b c d
  show ?thesis by simp
qed

text \<open>
  C8 as stated fails: a connection created at 1000 ms, reserved and released again
  (the clock then reads 2000 ms) is back in the available array with \<open>lastIdle\<close> still
  at 1000 ms.
\<close>

theorem lastIdle_after_cycle_counterexample:
  "cycle_init =
     (CallbackOk (), world0\<lparr>clock_reads := 1, uuids_made := 1, conns_asked := 1\<rparr>,
      (Pool cfg_cycle)\<lparr>pool := [record_of 0 (Some 1000)]\<rparr>)
   \<and> now steady_env 0 = 1000
   \<and> fst cycle_reserved = CallbackOk (record_of 0 (Some 1000))
   \<and> clock_reads (fst (snd cycle_reserved)) = 2
   \<and> now steady_env 2 = 2000
   \<and> cycle_released = (CallbackOk (), (Pool cfg_cycle)\<lparr>pool := [record_of 0 (Some 1000)]\<rparr>)
   \<and> lastIdle (hd (pool (snd cycle_released))) = Some 1000
   \<and> lastIdle (hd (pool (snd cycle_released))) \<noteq> Some (now steady_env 2)"
proof -
  have i: "cycle_init =
     (CallbackOk (), world0\<lparr>clock_reads := 1, uuids_made := 1, conns_asked := 1\<rparr>,
      (Pool cfg_cycle)\<lparr>pool := [record_of 0 (Some 1000)]\<rparr>)"
    by (simp add: cycle_init_def initialize_def addConnectionsOnInitialize_def addConnection_def
                  scenario_defs)
  have r: "cycle_reserved =
     (CallbackOk (record_of 0 (Some 1000)),
      world0\<lparr>clock_reads := 2, uuids_made := 1, conns_asked := 1\<rparr>,
      (Pool cfg_cycle)\<lparr>reserved := [record_of 0 (Some 1000)]\<rparr>)"
    unfolding cycle_reserved_def i
    by (simp add: reserve_def closeIdleConnections_def closeIdleConnectionsInArray_def
                  shuffle_def handOut_def scenario_defs)
  have l: "cycle_released = (CallbackOk (), (Pool cfg_cycle)\<lparr>pool := [record_of 0 (Some 1000)]\<rparr>)"
    unfolding cycle_released_def r
    by (simp add: release_def scenario_defs)
  show ?thesis unfolding l r i by (simp add: scenario_defs)
qed

subsection \<open>The scenario minpoolsize = 2, maxpoolsize = 3\<close>

lemma addConnection_ok:
  assumes "getConnection e (conns_asked w) = Inr h"
  shows "\<exists>c w1. addConnection e k mi w = (Inr c, w1) \<and> conn c = Connection h
           \<and> uuid c = Some (uuid_v4 e (uuids_made w))
           \<and> conns_asked w1 = Suc (conns_asked w) \<and> uuids_made w1 = Suc (uuids_made w)"
  using assms by (simp add: addConnection_def Let_def)

lemma timesAddConnection_ok:
  "\<forall>i<n. \<exists>h. getConnection e (conns_asked w + i) = Inr h \<Longrightarrow>
   \<exists>cs w'. timesAddConnection e k mi n w = (map Inr cs, w') \<and> length cs = n
      \<and> conns_asked w' = conns_asked w + n"
proof (induction n arbitrary: w)
  case 0
  show ?case by (intro exI [of _ "[]"] exI [of _ w]) simp
next
  case (Suc n)
  from Suc.prems obtain h where h: "getConnection e (conns_asked w) = Inr h" by force
  from addConnection_ok [OF h, of k mi] obtain c w1 where
    c: "addConnection e k mi w = (Inr c, w1)" "conns_asked w1 = Suc (conns_asked w)" by blast
  have "\<forall>i<n. \<exists>h. getConnection e (conns_asked w1 + i) = Inr h"
    using Suc.prems c(2) by (metis Suc_less_eq add_Suc_shift)
  from Suc.IH [OF this] obtain cs w' where
    r: "timesAddConnection e k mi n w1 = (map Inr cs, w')" "length cs = n"
       "conns_asked w' = conns_asked w1 + n" by blast
  have "timesAddConnection e k mi (Suc n) w = (map Inr (c # cs), w')"
    using c(1) r(1) by simp
  moreover have "length (c # cs) = Suc n" using r(2) by simp
  moreover have "conns_asked w' = conns_asked w + Suc n" using r(3) c(2) by simp
  ultimately show ?case by blast
qed

lemma firstError_all_ok: "firstError (map Inr cs) = None"
  by (induction cs) simp_all

lemma results_all_ok: "results (map Inr cs) = cs"
  by (induction cs) simp_all

lemma shuffle_conns_asked: "conns_asked (fst (shuffle e w xs)) = conns_asked w"
  by (simp add: shuffle_def shuffleLoop_world)

lemma reserve_serves_available:
  assumes "\<not> truthy (maxidle s)"
    and "minpoolsize s \<le> int (length (pool s) + length (reserved s))"
    and "pool s \<noteq> []"
  shows "\<exists>c w' p. reserve e w s = (CallbackOk c, w', s\<lparr>pool := p, reserved := c # reserved s\<rparr>)
           \<and> Suc (length p) = length (pool s) \<and> conns_asked w' = conns_asked w"
proof -
  obtain w2 array where sh: "shuffle e w (pool s) = (w2, array)" by (cases "shuffle e w (pool s)")
  have len: "length array = length (pool s)" using shuffle_length [of e w "pool s"] sh by simp
  have ca: "conns_asked w2 = conns_asked w" using shuffle_conns_asked [of e w "pool s"] sh by simp
  from len assms(3) obtain c p where arr: "array = c # p" by (cases array) auto
  have "reserve e w s = (CallbackOk c, w2, s\<lparr>pool := p, reserved := c # reserved s\<rparr>)"
    using assms(1,2) sh arr len
    by (simp add: reserve_def closeIdleConnections_def handOut_def Let_def)
  then show ?thesis using arr len ca by auto
qed

lemma reserve_grows:
  assumes "\<not> truthy (maxidle s)" and "pool s = []"
    and "minpoolsize s \<le> int (length (reserved s))"
    and "int (length (reserved s)) < maxpoolsize s"
    and "getConnection e (conns_asked w) = Inr h"
  shows "\<exists>c w'. reserve e w s = (CallbackOk c, w', s\<lparr>reserved := c # reserved s\<rparr>)
           \<and> conn c = Connection h \<and> conns_asked w' = Suc (conns_asked w)"
proof -
  from addConnectionSync_ok [OF assms(5), of "ka s" "maxidle s"] obtain c w1 where
    c: "addConnectionSync e (ka s) (maxidle s) w = (Inr c, w1)" "conn c = Connection h"
       "conns_asked w1 = Suc (conns_asked w)" by blast
  have "s\<lparr>pool := []\<rparr> = s" using assms(2) by (metis pool_state.surjective pool_state.update_convs(6))
  then have "reserve e w s = (CallbackOk c, w1, s\<lparr>reserved := c # reserved s\<rparr>)"
    using assms(1-4) c(1)
    by (simp add: reserve_def closeIdleConnections_def shuffle_Nil handOut_def Let_def)
  then show ?thesis using c(2,3) by blast
qed

lemma reserve_exhausted:
  assumes "\<not> truthy (maxidle s)" and "pool s = []"
    and "minpoolsize s \<le> int (length (reserved s))"
    and "maxpoolsize s \<le> int (length (reserved s))"
  shows "reserve e w s = (CallbackErr (Error ''No more pool connections available''), w, s)"
proof -
  have "s\<lparr>pool := []\<rparr> = s" using assms(2) by (metis pool_state.surjective pool_state.update_convs(6))
  then show ?thesis using assms
    by (simp add: reserve_def closeIdleConnections_def shuffle_Nil handOut_def Let_def)
qed

text \<open>
  C2: a pool configured with \<open>minpoolsize = 2\<close> and \<open>maxpoolsize = 3\<close> (no driver name, no idle
  eviction), in an environment whose driver manager answers three requests:
  \<open>initialize\<close> fills the available array with two records; the first two \<open>reserve\<close>
  calls hand out those two; the third creates a new connection straight into the
  reserved array; the fourth calls back with the error
  \<^verbatim>\<open>No more pool connections available\<close> and leaves world and pool state as they were.
\<close>

theorem min2_max3_scenario:
  assumes cfg: "cfg_minpoolsize c = Some 2" "cfg_maxpoolsize c = Some 3"
               "cfg_drivername c = None" "cfg_maxidle c = None"
    and factory: "\<forall>k<3. \<exists>h. getConnection e k = Inr h"
  shows "\<exists>w0 s0 c1 w1 s1 c2 w2 s2 c3 w3 s3.
           initialize e world0 (Pool c) = (CallbackOk (), w0, s0)
         \<and> length (pool s0) = 2 \<and> reserved s0 = []
         \<and> reserve e w0 s0 = (CallbackOk c1, w1, s1)
         \<and> reserve e w1 s1 = (CallbackOk c2, w2, s2)
         \<and> pool s2 = [] \<and> reserved s2 = [c2, c1]
         \<and> reserve e w2 s2 = (CallbackOk c3, w3, s3)
         \<and> conn c3 = Connection (projr (getConnection e 2))
         \<and> pool s3 = [] \<and> reserved s3 = [c3, c2, c1]
         \<and> reserve e w3 s3 =
             (CallbackErr (Error ''No more pool connections available''), w3, s3)"
proof -
  let ?P = "Pool c"
  have P: "minpoolsize ?P = 2" "maxpoolsize ?P = 3" "drivername ?P = []" "maxidle ?P = None"
    "pool ?P = []" "reserved ?P = []"
    using cfg by (simp_all add: Pool_def Let_def)
  have "\<forall>i<2. \<exists>h. getConnection e (conns_asked world0 + i) = Inr h"
    using factory by (simp add: world0_def)
  from timesAddConnection_ok [OF this, of "ka ?P" "maxidle ?P"] obtain cs w0 where
    t: "timesAddConnection e (ka ?P) (maxidle ?P) 2 world0 = (map Inr cs, w0)" "length cs = 2"
       "conns_asked w0 = 2" by (auto simp: world0_def)
  define s0 where "s0 = ?P\<lparr>pool := cs\<rparr>"
  have i: "initialize e world0 ?P = (CallbackOk (), w0, s0)"
    using P t(1) by (simp add: initialize_def addConnectionsOnInitialize_def firstError_all_ok
        results_all_ok s0_def)
  have S0: "minpoolsize s0 = 2" "maxpoolsize s0 = 3" "maxidle s0 = None" "length (pool s0) = 2"
    "reserved s0 = []"
    using P t(2) by (simp_all add: s0_def)
  have "pool s0 \<noteq> []" using S0(4) by auto
  from reserve_serves_available [of s0 e w0, OF _ _ this] S0 obtain c1 w1 p1 where
    r1: "reserve e w0 s0 = (CallbackOk c1, w1, s0\<lparr>pool := p1, reserved := [c1]\<rparr>)"
        "length p1 = 1" "conns_asked w1 = conns_asked w0"
    by auto
  define s1 where "s1 = s0\<lparr>pool := p1, reserved := [c1]\<rparr>"
  have S1: "minpoolsize s1 = 2" "maxpoolsize s1 = 3" "maxidle s1 = None" "length (pool s1) = 1"
    "reserved s1 = [c1]"
    using S0 r1(2) by (simp_all add: s1_def)
  have "pool s1 \<noteq> []" using S1(4) by auto
  from reserve_serves_available [of s1 e w1, OF _ _ this] S1 obtain c2 w2 p2 where
    r2: "reserve e w1 s1 = (CallbackOk c2, w2, s1\<lparr>pool := p2, reserved := [c2, c1]\<rparr>)"
        "length p2 = 0" "conns_asked w2 = conns_asked w1"
    by auto
  define s2 where "s2 = s1\<lparr>pool := p2, reserved := [c2, c1]\<rparr>"
  have S2: "minpoolsize s2 = 2" "maxpoolsize s2 = 3" "maxidle s2 = None" "pool s2 = []"
    "reserved s2 = [c2, c1]"
    using S1 r2(2) by (simp_all add: s2_def)
  obtain h where h: "getConnection e (conns_asked w2) = Inr h"
    using factory r2(3) r1(3) t(3) by force
  from reserve_grows [of s2 e w2 h] S2 h obtain c3 w3 where
    r3: "reserve e w2 s2 = (CallbackOk c3, w3, s2\<lparr>reserved := [c3, c2, c1]\<rparr>)"
        "conn c3 = Connection h"
    by auto
  define s3 where "s3 = s2\<lparr>reserved := [c3, c2, c1]\<rparr>"
  have S3: "minpoolsize s3 = 2" "maxpoolsize s3 = 3" "maxidle s3 = None" "pool s3 = []"
    "reserved s3 = [c3, c2, c1]"
    using S2 by (simp_all add: s3_def)
  have r4: "reserve e w3 s3 =
             (CallbackErr (Error ''No more pool connections available''), w3, s3)"
    using reserve_exhausted [of s3 e w3] S3 by simp
  have hh: "h = projr (getConnection e 2)" using h r2(3) r1(3) t(3) by simp
  show ?thesis
    using i S0(4,5) r1(1) r2(1) r3 r4 S2(4,5) S3(4,5) hh
    unfolding s1_def [symmetric] s2_def [symmetric] s3_def [symmetric]
    by blast
qed

theorem min2_max3_scenario_witness:
  "cfg_minpoolsize cfg23 = Some 2 \<and> cfg_maxpoolsize cfg23 = Some 3
   \<and> cfg_drivername cfg23 = None \<and> cfg_maxidle cfg23 = None
   \<and> getConnection steady_env 0 = Inr 0 \<and> getConnection steady_env 1 = Inr 1
   \<and> getConnection steady_env 2 = Inr 2
   \<and> (\<exists>w0 s0 c1 w1 s1 c2 w2 s2 c3 w3 s3.
           initialize steady_env world0 (Pool cfg23) = (CallbackOk (), w0, s0)
         \<and> length (pool s0) = 2 \<and> reserved s0 = []
         \<and> reserve steady_env w0 s0 = (CallbackOk c1, w1, s1)
         \<and> reserve steady_env w1 s1 = (CallbackOk c2, w2, s2)
         \<and> pool s2 = [] \<and> reserved s2 = [c2, c1]
         \<and> reserve steady_env w2 s2 = (CallbackOk c3, w3, s3)
         \<and> conn c3 = Connection (projr (getConnection steady_env 2))
         \<and> pool s3 = [] \<and> reserved s3 = [c3, c2, c1]
         \<and> reserve steady_env w3 s3 =
             (CallbackErr (Error ''No more pool connections available''), w3, s3))"
proof -
  have h: "cfg_minpoolsize cfg23 = Some 2" "cfg_maxpoolsize cfg23 = Some 3"
    "cfg_drivername cfg23 = None" "cfg_maxidle cfg23 = None"
    by (simp_all add: cfg23_def)
  have f: "\<forall>k<3. \<exists>h. getConnection steady_env k = Inr h" by (simp add: steady_env_def)
  have g: "getConnection steady_env 0 = Inr 0" "getConnection steady_env 1 = Inr 1"
    "getConnection steady_env 2 = Inr 2"
    by (simp_all add: steady_env_def)
  from min2_max3_scenario [OF h f] h g show ?thesis by blast
qed

subsection \<open>Identities\<close>

lemma ids_issued_mono: "ids_issued e n xs \<Longrightarrow> n \<le> n' \<Longrightarrow> ids_issued e n' xs"
  unfolding ids_issued_def by (meson less_le_trans)

lemma ids_issued_fresh:
  assumes "inj (uuid_v4 e)" and "ids_issued e n xs" and "uuid c = Some (uuid_v4 e n)"
  shows "ids_issued e (Suc n) (c # xs)"
proof -
  have "uuid c \<notin> set (map uuid xs)"
  proof
    assume "uuid c \<in> set (map uuid xs)"
    then obtain d where d: "d \<in> set xs" "uuid d = uuid c" by auto
    with assms(2) obtain k where "k < n" "uuid d = Some (uuid_v4 e k)"
      unfolding ids_issued_def by blast
    with d(2) assms(3) have "uuid_v4 e k = uuid_v4 e n" by simp
    with assms(1) \<open>k < n\<close> show False by (simp add: inj_eq)
  qed
  moreover have "\<forall>d \<in> set xs. \<exists>k<Suc n. uuid d = Some (uuid_v4 e k)"
    using assms(2) unfolding ids_issued_def by (meson less_Suc_eq)
  ultimately show ?thesis using assms(2,3) unfolding ids_issued_def by auto
qed

lemma ids_issued_mset:
  assumes "mset xs = mset ys"
  shows "ids_issued e n xs = ids_issued e n ys"
proof -
  have "mset (map uuid xs) = mset (map uuid ys)" using assms by simp
  then have "distinct (map uuid xs) = distinct (map uuid ys)"
    by (rule mset_eq_imp_distinct_iff)
  moreover have "set xs = set ys" using assms by (rule mset_eq_setD)
  ultimately show ?thesis unfolding ids_issued_def by simp
qed

lemma ids_issued_remove: "ids_issued e n (as @ x # cs) \<Longrightarrow> ids_issued e n (as @ cs)"
  unfolding ids_issued_def by auto

lemma ids_issued_splice1:
  assumes "ids_issued e n (xs @ ys)" and "i < length xs"
  shows "ids_issued e n (splice1 xs i @ ys)"
proof -
  have "xs @ ys = take i xs @ xs ! i # (drop (Suc i) xs @ ys)"
    using id_take_nth_drop [OF assms(2)] by (metis append_Cons append_assoc)
  with assms(1) have "ids_issued e n (take i xs @ (drop (Suc i) xs @ ys))"
    using ids_issued_remove by metis
  then show ?thesis by (simp add: splice1_def)
qed

lemma closeIdleLoop_ids:
  "ids_issued e n (array @ ys) \<Longrightarrow>
   ids_issued e n (snd (snd (closeIdleLoop e' m i w array)) @ ys)"
proof (induction i arbitrary: w array)
  case 0
  then show ?case by simp
next
  case (Suc i)
  show ?case
  proof (cases "i < length array \<and> conn (array ! i) \<noteq> ConnNull
                \<and> lastIdle_lt (lastIdle (array ! i)) m")
    case False
    then show ?thesis using Suc.IH [OF Suc.prems] by auto
  next
    case True
    show ?thesis
    proof (cases "conn (array ! i)")
      case (Connection h)
      obtain r w1 where c: "close e' h w = (r, w1)" by (cases "close e' h w")
      have "ids_issued e n (splice1 array i @ ys)"
        using ids_issued_splice1 [OF Suc.prems] True by simp
      from Suc.IH [OF this] show ?thesis
        using True Connection c Suc.prems by (cases r) simp_all
    qed (use True Suc.prems in simp_all)
  qed
qed

lemma closeIdleLoop_uuids_made:
  "uuids_made (fst (snd (closeIdleLoop e m i w array))) = uuids_made w"
proof (induction i arbitrary: w array)
  case 0
  then show ?case by simp
next
  case (Suc i)
  show ?case
  proof (cases "i < length array \<and> conn (array ! i) \<noteq> ConnNull
                \<and> lastIdle_lt (lastIdle (array ! i)) m")
    case False
    then show ?thesis using Suc.IH by auto
  next
    case True
    show ?thesis
    proof (cases "conn (array ! i)")
      case (Connection h)
      show ?thesis
        using True Connection Suc.IH [of "w\<lparr>closed := closed w @ [h]\<rparr>" "splice1 array i"]
        by (cases "closeResult e (length (closed w))") (simp_all add: close_def)
    qed (use True in simp_all)
  qed
qed

lemma closeIdleConnections_inv:
  assumes "pool_inv e (w, s)"
  shows "pool_inv e (snd (closeIdleConnections e w s))"
proof (cases "truthy (maxidle s)")
  case False
  then show ?thesis using assms by (simp add: closeIdleConnections_def)
next
  case True
  then obtain m where m: "maxidle s = Some m" by (cases "maxidle s") auto
  let ?w0 = "w\<lparr>clock_reads := Suc (clock_reads w)\<rparr>"
  let ?r = "closeIdleLoop e (now e (clock_reads w) - m) (length (pool s)) ?w0 (pool s)"
  have "closeIdleConnections e w s = (fst ?r, fst (snd ?r), s\<lparr>pool := snd (snd ?r)\<rparr>)"
    using True m
    by (simp add: closeIdleConnections_def closeIdleConnectionsInArray_def split: prod.splits)
  moreover have "uuids_made (fst (snd ?r)) = uuids_made w"
    by (simp add: closeIdleLoop_uuids_made)
  moreover have "ids_issued e (uuids_made w) (snd (snd ?r) @ reserved s)"
    using assms closeIdleLoop_ids [of e "uuids_made w" "pool s" "reserved s"]
    by (simp add: pool_inv_def)
  ultimately show ?thesis by (simp add: pool_inv_def)
qed

lemma addConnectionSync_cases:
  "(\<exists>err. addConnectionSync e k mi w = (Inl err, w\<lparr>conns_asked := Suc (conns_asked w)\<rparr>))
   \<or> (\<exists>c w1. addConnectionSync e k mi w = (Inr c, w1)
        \<and> uuid c = Some (uuid_v4 e (uuids_made w)) \<and> uuids_made w1 = Suc (uuids_made w))"
  by (cases "getConnection e (conns_asked w)") (simp_all add: addConnectionSync_def Let_def)

lemma addConnection_cases:
  "(\<exists>err. addConnection e k mi w = (Inl err, w\<lparr>conns_asked := Suc (conns_asked w)\<rparr>))
   \<or> (\<exists>c w1. addConnection e k mi w = (Inr c, w1)
        \<and> uuid c = Some (uuid_v4 e (uuids_made w)) \<and> uuids_made w1 = Suc (uuids_made w))"
  by (cases "getConnection e (conns_asked w)") (simp_all add: addConnection_def Let_def)

lemma topUp_inv:
  assumes "inj (uuid_v4 e)"
  shows "pool_inv e (w, s) \<Longrightarrow> pool_inv e (snd (topUp e n w s))"
proof (induction n arbitrary: w s)
  case 0
  then show ?case by simp
next
  case (Suc n)
  from addConnectionSync_cases [of e "ka s" "maxidle s" w] show ?case
  proof (elim disjE exE conjE)
    fix err
    assume "addConnectionSync e (ka s) (maxidle s) w = (Inl err, w\<lparr>conns_asked := Suc (conns_asked w)\<rparr>)"
    then show ?thesis using Suc.prems by (simp add: pool_inv_def)
  next
    fix c w1
    assume a: "addConnectionSync e (ka s) (maxidle s) w = (Inr c, w1)"
      "uuid c = Some (uuid_v4 e (uuids_made w))" "uuids_made w1 = Suc (uuids_made w)"
    have "pool_inv e (w1, s\<lparr>pool := c # pool s\<rparr>)"
      using ids_issued_fresh [OF assms _ a(2)] Suc.prems a(3) by (simp add: pool_inv_def)
    from Suc.IH [OF this] show ?thesis using a(1) by simp
  qed
qed

lemma handOut_inv:
  assumes "inj (uuid_v4 e)" and "pool_inv e (w, s)"
  shows "pool_inv e (snd (handOut e w s))"
proof (cases "pool s")
  case (Cons c rest)
  have "mset (rest @ c # reserved s) = mset (pool s @ reserved s)" using Cons by simp
  then have "ids_issued e (uuids_made w) (rest @ c # reserved s)"
    using assms(2) ids_issued_mset unfolding pool_inv_def by (metis fst_conv snd_conv)
  then show ?thesis using Cons by (simp add: handOut_def pool_inv_def)
next
  case Nil
  show ?thesis
  proof (cases "int (length (reserved s)) < maxpoolsize s")
    case False
    then show ?thesis using Nil assms(2) by (simp add: handOut_def)
  next
    case True
    from addConnectionSync_cases [of e "ka s" "maxidle s" w] show ?thesis
    proof (elim disjE exE conjE)
      fix err
      assume "addConnectionSync e (ka s) (maxidle s) w = (Inl err, w\<lparr>conns_asked := Suc (conns_asked w)\<rparr>)"
      then show ?thesis using Nil True assms(2) by (simp add: handOut_def pool_inv_def)
    next
      fix c w1
      assume a: "addConnectionSync e (ka s) (maxidle s) w = (Inr c, w1)"
        "uuid c = Some (uuid_v4 e (uuids_made w))" "uuids_made w1 = Suc (uuids_made w)"
      have "ids_issued e (Suc (uuids_made w)) (c # reserved s)"
        using ids_issued_fresh [OF assms(1) _ a(2)] assms(2) Nil by (simp add: pool_inv_def)
      then show ?thesis using Nil True a(1,3) by (simp add: handOut_def pool_inv_def)
    qed
  qed
qed

lemma shuffle_inv:
  assumes "pool_inv e (w, s)" and "shuffle e w (pool s) = (w2, array)"
  shows "pool_inv e (w2, s\<lparr>pool := array\<rparr>)"
proof -
  have "mset array = mset (pool s)" using shuffle_mset [of e w "pool s"] assms(2) by simp
  then have "mset (array @ reserved s) = mset (pool s @ reserved s)" by simp
  then have "ids_issued e (uuids_made w) (array @ reserved s)"
    using assms(1) ids_issued_mset unfolding pool_inv_def by (metis fst_conv snd_conv)
  moreover have "uuids_made w2 = uuids_made w"
    using assms(2) shuffleLoop_world [of e "length (pool s) - 1" w "pool s"]
    by (simp add: shuffle_def)
  ultimately show ?thesis by (simp add: pool_inv_def)
qed

lemma reserve_inv:
  assumes "inj (uuid_v4 e)" and "pool_inv e (w, s)"
  shows "pool_inv e (snd (reserve e w s))"
proof -
  obtain r w1 s1 where c: "closeIdleConnections e w s = (r, w1, s1)"
    by (cases "closeIdleConnections e w s") auto
  have i1: "pool_inv e (w1, s1)" using closeIdleConnections_inv [OF assms(2)] c by simp
  show ?thesis
  proof (cases r)
    case (Some err)
    then show ?thesis using c i1 by (simp add: reserve_def)
  next
    case None
    obtain w2 array where sh: "shuffle e w1 (pool s1) = (w2, array)"
      by (cases "shuffle e w1 (pool s1)")
    let ?s2 = "s1\<lparr>pool := array\<rparr>"
    have i2: "pool_inv e (w2, ?s2)" using shuffle_inv [OF i1 sh] .
    let ?times = "minpoolsize s1 - int (length (array @ reserved s1))"
    obtain r3 w3 s3 where t: "(if ?times > 0 then topUp e (nat ?times) w2 ?s2 else (None, w2, ?s2))
                              = (r3, w3, s3)"
      by (cases "if ?times > 0 then topUp e (nat ?times) w2 ?s2 else (None, w2, ?s2)") auto
    have i3: "pool_inv e (w3, s3)"
      using t i2 topUp_inv [OF assms(1) i2, of "nat ?times"] by (auto split: if_splits)
    have "reserve e w s = (case r3 of Some err \<Rightarrow> (Throws err, w3, s3) | None \<Rightarrow> handOut e w3 s3)"
    proof (cases "?times > 0")
      case True
      with t have "topUp e (nat ?times) w2 ?s2 = (r3, w3, s3)" by simp
      then show ?thesis using c None sh True
        by (cases r3) (simp_all add: reserve_def Let_def)
    next
      case False
      with t have "r3 = None" "w3 = w2" "s3 = ?s2" by simp_all
      then show ?thesis using c None sh False by (simp add: reserve_def Let_def)
    qed
    then show ?thesis using i3 handOut_inv [OF assms(1) i3] by (cases r3) simp_all
  qed
qed

lemma release_inv:
  assumes "pool_inv e (w, s)" and "ob \<in> set (reserved s)"
  shows "pool_inv e (w, snd (release (JObject ob) s))"
proof -
  let ?keep = "filter (\<lambda>r. uuid r \<noteq> uuid ob) (reserved s)"
  from assms(1) have d: "distinct (map uuid (pool s))" "distinct (map uuid (reserved s))"
    "set (map uuid (pool s)) \<inter> set (map uuid (reserved s)) = {}"
    and k: "\<forall>c \<in> set (pool s @ reserved s). \<exists>k<uuids_made w. uuid c = Some (uuid_v4 e k)"
    unfolding pool_inv_def ids_issued_def by simp_all
  have "uuid ob \<notin> set (map uuid (pool s))" using d(3) assms(2) by auto
  moreover have "uuid ob \<notin> set (map uuid ?keep)" by auto
  moreover have "distinct (map uuid ?keep)" using d(2) by (rule distinct_map_filter)
  moreover have "set (map uuid (pool s)) \<inter> set (map uuid ?keep) = {}" using d(3) by auto
  ultimately have "distinct (map uuid (ob # pool s @ ?keep))" using d(1) by simp
  moreover have "\<forall>c \<in> set (ob # pool s @ ?keep). \<exists>k<uuids_made w. uuid c = Some (uuid_v4 e k)"
    using k assms(2) by auto
  ultimately show ?thesis by (simp add: release_def pool_inv_def ids_issued_def)
qed

lemma timesAddConnection_ids:
  assumes "inj (uuid_v4 e)"
  shows "ids_issued e (uuids_made w) xs \<Longrightarrow>
    ids_issued e (uuids_made (snd (timesAddConnection e k mi n w)))
       (xs @ results (fst (timesAddConnection e k mi n w)))"
proof (induction n arbitrary: w xs)
  case 0
  then show ?case by simp
next
  case (Suc n)
  from addConnection_cases [of e k mi w] show ?case
  proof (elim disjE exE conjE)
    fix err
    assume a: "addConnection e k mi w = (Inl err, w\<lparr>conns_asked := Suc (conns_asked w)\<rparr>)"
    have "ids_issued e (uuids_made (w\<lparr>conns_asked := Suc (conns_asked w)\<rparr>)) xs"
      using Suc.prems by simp
    from Suc.IH [OF this] show ?thesis using a
      by (cases "timesAddConnection e k mi n (w\<lparr>conns_asked := Suc (conns_asked w)\<rparr>)") simp
  next
    fix c w1
    assume a: "addConnection e k mi w = (Inr c, w1)"
      "uuid c = Some (uuid_v4 e (uuids_made w))" "uuids_made w1 = Suc (uuids_made w)"
    have "ids_issued e (uuids_made w1) (c # xs)"
      using ids_issued_fresh [OF assms Suc.prems a(2)] a(3) by simp
    moreover have "mset (c # xs) = mset (xs @ [c])" by simp
    ultimately have "ids_issued e (uuids_made w1) (xs @ [c])"
      using ids_issued_mset by blast
    from Suc.IH [OF this] show ?thesis using a(1)
      by (cases "timesAddConnection e k mi n w1") simp
  qed
qed

lemma initialize_inv:
  assumes "inj (uuid_v4 e)"
  shows "pool_inv e (snd (initialize e world0 (Pool c)))"
proof -
  let ?P = "Pool c"
  have P: "pool ?P = []" "reserved ?P = []" by (simp_all add: Pool_def Let_def)
  have i0: "pool_inv e (world0, ?P)" using P by (simp add: pool_inv_def ids_issued_def)
  let ?t = "timesAddConnection e (ka ?P) (maxidle ?P) (nat (minpoolsize ?P)) world0"
  have t: "ids_issued e (uuids_made (snd ?t)) ([] @ results (fst ?t))"
    by (rule timesAddConnection_ids [OF assms]) (simp add: ids_issued_def)
  obtain rs w1 where rs: "?t = (rs, w1)" by (cases ?t)
  have a: "pool_inv e (snd (addConnectionsOnInitialize e world0 ?P))"
  proof (cases "firstError rs")
    case None
    then show ?thesis using t P rs
      by (simp add: addConnectionsOnInitialize_def pool_inv_def)
  next
    case (Some err)
    then show ?thesis using P rs
      by (simp add: addConnectionsOnInitialize_def pool_inv_def ids_issued_def)
  qed
  show ?thesis using a i0
    by (simp add: initialize_def split: option.splits)
qed

lemma run_inv:
  assumes "inj (uuid_v4 e)"
  shows "pool_inv e st \<Longrightarrow> releases_reserved e cs st \<Longrightarrow> pool_inv e (run e cs st)"
proof (induction cs arbitrary: st)
  case Nil
  then show ?case by simp
next
  case (Cons c cs)
  obtain w s where st: "st = (w, s)" by (cases st)
  show ?case
  proof (cases c)
    case Reserve
    have "pool_inv e (step e Reserve st)" using reserve_inv [OF assms] Cons.prems(1) st by simp
    then show ?thesis using Cons.IH Cons.prems(2) Reserve by simp
  next
    case (Release x)
    with Cons.prems(2) st obtain ob where ob: "x = JObject ob" "ob \<in> set (reserved s)"
      by (cases x) simp_all
    have "pool_inv e (step e (Release x) st)" using release_inv [OF _ ob(2)] Cons.prems(1) st ob(1)
      by simp
    then show ?thesis using Cons.IH Cons.prems(2) Release by simp
  qed
qed

text \<open>
  C1, as the code has it: if \<^verbatim>\<open>uuid.v4()\<close> never repeats a result, then after
  \<open>initialize\<close> and any sequence of \<open>reserve\<close> calls and of \<open>release\<close> calls on records that
  are in the reserved array when released, whatever the outcome of each call, no
  identity occurs twice in the available and reserved arrays taken together.
\<close>

theorem identities_stay_distinct:
  assumes "inj (uuid_v4 e)"
    and "releases_reserved e cs (snd (initialize e world0 (Pool c)))"
  shows "distinct (map uuid (pool (snd (run e cs (snd (initialize e world0 (Pool c)))))
                            @ reserved (snd (run e cs (snd (initialize e world0 (Pool c)))))))"
  using run_inv [OF assms(1) initialize_inv [OF assms(1)] assms(2)]
  by (simp add: pool_inv_def ids_issued_def)

theorem identities_stay_distinct_witness:
  "inj (uuid_v4 steady_env)
   \<and> releases_reserved steady_env orderly_calls (snd (initialize steady_env world0 (Pool cfg23)))
   \<and> run steady_env orderly_calls (snd (initialize steady_env world0 (Pool cfg23))) =
       (world0\<lparr>uuids_made := 3, conns_asked := 3, draws := 2\<rparr>,
        (Pool cfg23)\<lparr>pool := [record_of 2 None],
                      reserved := [record_of 0 None, record_of 1 None]\<rparr>)
   \<and> distinct (map uuid
        (pool (snd (run steady_env orderly_calls (snd (initialize steady_env world0 (Pool cfg23)))))
         @ reserved (snd (run steady_env orderly_calls
                           (snd (initialize steady_env world0 (Pool cfg23)))))))"
proof -
  have i: "inj (uuid_v4 steady_env)"
  proof (rule injI)
    fix a b assume "uuid_v4 steady_env a = uuid_v4 steady_env b"
    then have "length (replicate (Suc a) CHR ''u'') = length (replicate (Suc b) CHR ''u'')"
      by (simp add: steady_env_def)
    then show "a = b" by simp
  qed
  have r: "releases_reserved steady_env orderly_calls
             (snd (initialize steady_env world0 (Pool cfg23)))"
    by code_simp
  have v: "run steady_env orderly_calls (snd (initialize steady_env world0 (Pool cfg23))) =
       (world0\<lparr>uuids_made := 3, conns_asked := 3, draws := 2\<rparr>,
        (Pool cfg23)\<lparr>pool := [record_of 2 None],
                      reserved := [record_of 0 None, record_of 1 None]\<rparr>)"
    by code_simp
  from identities_stay_distinct [OF i r] i r v show ?thesis by blast
qed

text \<open>
  C1 as stated fails: releasing the reserved record twice leaves it twice in the
  available array, and two more \<open>reserve\<close> calls then leave it in both arrays.
\<close>

theorem double_release_counterexample:
  "fst (initialize steady_env world0 (Pool cfg23)) = CallbackOk ()
   \<and> pool (snd (run steady_env double_release initialized23)) =
       [record_of 1 None, record_of 1 None, record_of 0 None]
   \<and> \<not> distinct (map uuid (pool (snd (run steady_env double_release initialized23))
                            @ reserved (snd (run steady_env double_release initialized23))))
   \<and> pool (snd (run steady_env (double_release @ [Reserve, Reserve]) initialized23)) =
       [record_of 1 None]
   \<and> reserved (snd (run steady_env (double_release @ [Reserve, Reserve]) initialized23)) =
       [record_of 1 None, record_of 0 None]"
  by code_simp

end
